theory Spec2Isabelle
  imports Main "HOL-Library.AList" "HOL-Library.Char_ord" "HOL-Library.List_Lexorder"
begin

section \<open>The restocking report: the server action of app/routes/app._index.jsx\<close>

text \<open>
  The action reads two date strings from the submitted form, pages through the shop's
  orders, keeps the orders created inside the date window, flattens their line items
  into rows, groups the rows by product, variant and SKU, sorts the groups by SKU and
  returns them. This theory embeds that pipeline (lines 19 to 209 of the source) and
  proves properties of it.

  What belongs to the JavaScript platform and not to the source is a parameter of the
  model: the date parser behind \<open>new Date(string)\<close>, the server's time zone,
  the collation behind \<open>localeCompare\<close>, the clock behind
  \<open>new Date().toLocaleString()\<close>, and the replies of the remote GraphQL service.
\<close>

subsection \<open>JavaScript dates\<close>

text \<open>
  The time value of a Date is a whole number of milliseconds since the epoch, or NaN
  for an invalid date: \<open>None\<close> is NaN. A relational operator on two Dates compares
  their time values as numbers, and every comparison with NaN is false.
\<close>

type_synonym date = "int option"

definition date_ge :: "date \<Rightarrow> date \<Rightarrow> bool" where
  "date_ge a b =
     (case a of None \<Rightarrow> False
      | Some x \<Rightarrow> (case b of None \<Rightarrow> False | Some y \<Rightarrow> y \<le> x))"

definition date_le :: "date \<Rightarrow> date \<Rightarrow> bool" where
  "date_le a b =
     (case a of None \<Rightarrow> False
      | Some x \<Rightarrow> (case b of None \<Rightarrow> False | Some y \<Rightarrow> x \<le> y))"

text \<open>
  \<open>Date.prototype.setSeconds(sec, ms)\<close> as ECMAScript defines it: the time value is
  moved to local time, its day, hour and minute are kept, the seconds and milliseconds
  are replaced, and the result is moved back and clipped to the range of time values.
  The time zone of the server is the function \<open>LocalTZA(t, isUTC)\<close> of ECMAScript,
  here \<open>tza t isUTC\<close>, in milliseconds: for a time value \<open>t\<close> (\<open>isUTC\<close> true) the
  offset in force at \<open>t\<close>; for a local time \<open>t\<close> (\<open>isUTC\<close> false) the offset under
  which \<open>t\<close> is read, which for a local time that occurs twice, at the end of daylight
  saving, is the offset of the earlier instant.
\<close>

definition Day :: "int \<Rightarrow> int" where
  "Day t = t div 86400000"

definition HourFromTime :: "int \<Rightarrow> int" where
  "HourFromTime t = (t div 3600000) mod 24"

definition MinFromTime :: "int \<Rightarrow> int" where
  "MinFromTime t = (t div 60000) mod 60"

definition MakeTime :: "int \<Rightarrow> int \<Rightarrow> int \<Rightarrow> int \<Rightarrow> int" where
  "MakeTime h m s milli = h * 3600000 + m * 60000 + s * 1000 + milli"

definition MakeDate :: "int \<Rightarrow> int \<Rightarrow> int" where
  "MakeDate day time = day * 86400000 + time"

definition TimeClip :: "int \<Rightarrow> date" where
  "TimeClip t = (if \<bar>t\<bar> > 8640000000000000 then None else Some t)"

definition LocalTime :: "(int \<Rightarrow> bool \<Rightarrow> int) \<Rightarrow> int \<Rightarrow> int" where
  "LocalTime tza t = t + tza t True"

definition UTC :: "(int \<Rightarrow> bool \<Rightarrow> int) \<Rightarrow> int \<Rightarrow> int" where
  "UTC tza t = t - tza t False"

definition setSeconds :: "(int \<Rightarrow> bool \<Rightarrow> int) \<Rightarrow> int \<Rightarrow> int \<Rightarrow> date \<Rightarrow> date" where
  "setSeconds tza sec milli d =
     (case d of
        None \<Rightarrow> None
      | Some u \<Rightarrow>
          (let t = LocalTime tza u;
               date = MakeDate (Day t) (MakeTime (HourFromTime t) (MinFromTime t) sec milli)
           in TimeClip (UTC tza date)))"

subsection \<open>The GraphQL payload\<close>

text \<open>
  The records follow the selection set of \<open>ORDERS_QUERY\<close> (lines 37 to 88). A field the
  source reads through \<open>?.\<close> or \<open>||\<close> is optional here; a field it dereferences
  without a guard is required, as the schema has it. Field names carry a prefix where
  the source uses one name at several levels (\<open>title\<close>, \<open>name\<close>, \<open>quantity\<close>,
  \<open>edges\<close>).
\<close>

record 'a edge =
  node :: 'a

record inventory_quantity =
  q_name :: string
  q_quantity :: int

record location_node =
  loc_name :: "string option"

record inventory_level =
  quantities :: "inventory_quantity list option"
  location :: "location_node option"

text \<open>\<open>inventoryLevels\<close> is \<open>None\<close> when the connection or its \<open>edges\<close> are absent.\<close>

record inventory_item =
  inventoryLevels :: "inventory_level edge list option"

record product_node =
  p_title :: "string option"
  p_vendor :: "string option"
  p_productType :: "string option"

record variant_node =
  v_title :: "string option"
  v_sku :: "string option"
  v_inventoryItem :: "inventory_item option"

record line_item =
  quantity :: int
  product :: "product_node option"
  variant :: "variant_node option"

record order_node =
  createdAt :: string
  lineItems :: "line_item edge list"

record page_info =
  pi_hasNextPage :: bool
  pi_endCursor :: "string option"

record orders_connection =
  edges :: "order_node edge list option"
  pageInfo :: page_info

text \<open>
  The parsed body of one reply: \<open>errors\<close> says whether \<open>data.errors\<close> is truthy
  (any array is), \<open>orders\<close> is \<open>data?.data?.orders\<close>.
\<close>

record response =
  errors :: bool
  orders :: "orders_connection option"

subsection \<open>The pagination loop (lines 90 to 127)\<close>

record loop_state =
  allOrders :: "order_node edge list"
  cursor :: "string option"
  hasNextPage :: bool

text \<open>Lines 113 to 116: the test of one edge, and the push.\<close>

definition in_range :: "(string \<Rightarrow> date) \<Rightarrow> date \<Rightarrow> date \<Rightarrow> order_node edge \<Rightarrow> bool" where
  "in_range parse startD endD e =
     (let created = parse (createdAt (node e))
      in date_ge created startD \<and> date_le created endD)"

definition push_if_in_range ::
  "(string \<Rightarrow> date) \<Rightarrow> date \<Rightarrow> date \<Rightarrow> order_node edge list \<Rightarrow> order_node edge
     \<Rightarrow> order_node edge list" where
  "push_if_in_range parse startD endD acc e =
     (if in_range parse startD endD e then acc @ [e] else acc)"

text \<open>Line 109: \<open>ordersConnection.edges || []\<close>.\<close>

definition edges_or_empty :: "orders_connection \<Rightarrow> order_node edge list" where
  "edges_or_empty conn = (case edges conn of None \<Rightarrow> [] | Some es \<Rightarrow> es)"

text \<open>
  The remote service is outside the program, so a run is described by the replies the
  service gives, in the order of the requests. The loop consumes one reply for each
  iteration. \<open>Finished\<close> carries the state in which the loop was left (by its condition
  or by a \<open>break\<close>); \<open>Pending\<close> carries the state at the loop head when the loop is
  about to request a reply beyond the given ones, so it is the state of a run in
  progress.
\<close>

datatype 'a run = Finished 'a | Pending 'a

fun run_state :: "'a run \<Rightarrow> 'a" where
  "run_state (Finished s) = s"
| "run_state (Pending s) = s"

text \<open>Lines 112 to 117: the loop over the edges of one page.\<close>

definition for_edges ::
  "(string \<Rightarrow> date) \<Rightarrow> date \<Rightarrow> date \<Rightarrow> order_node edge list \<Rightarrow> order_node edge list
     \<Rightarrow> order_node edge list" where
  "for_edges parse startD endD acc es = foldl (push_if_in_range parse startD endD) acc es"

text \<open>Lines 109 to 120: what one pass does to the state once the reply has passed both checks.\<close>

definition page_step ::
  "(string \<Rightarrow> date) \<Rightarrow> date \<Rightarrow> date \<Rightarrow> orders_connection \<Rightarrow> loop_state \<Rightarrow> loop_state" where
  "page_step parse startD endD conn st =
     \<lparr> allOrders = for_edges parse startD endD (allOrders st) (edges_or_empty conn),
       cursor = pi_endCursor (pageInfo conn),
       hasNextPage = pi_hasNextPage (pageInfo conn) \<rparr>"

fun fetch_loop ::
  "(string \<Rightarrow> date) \<Rightarrow> date \<Rightarrow> date \<Rightarrow> response list \<Rightarrow> loop_state \<Rightarrow> loop_state run" where
  "fetch_loop parse startD endD [] st =
     (if \<not> hasNextPage st then Finished st else Pending st)"
| "fetch_loop parse startD endD (r # rs) st =
     (if \<not> hasNextPage st then Finished st
      else if errors r then Finished st
      else case orders r of
        None \<Rightarrow> Finished st
      | Some conn \<Rightarrow>
          (let st' = page_step parse startD endD conn st
           in if length (allOrders st') > 1000 then Finished st'
              else fetch_loop parse startD endD rs st'))"

text \<open>
  The order edges that the loop of lines 112 to 117 iterates over during a run, in
  order: the orders the run has fetched and inspected. It follows the control flow of
  \<open>fetch_loop\<close>.
\<close>

fun inspected ::
  "(string \<Rightarrow> date) \<Rightarrow> date \<Rightarrow> date \<Rightarrow> response list \<Rightarrow> loop_state \<Rightarrow> order_node edge list" where
  "inspected parse startD endD [] st = []"
| "inspected parse startD endD (r # rs) st =
     (if \<not> hasNextPage st then []
      else if errors r then []
      else case orders r of
        None \<Rightarrow> []
      | Some conn \<Rightarrow>
          (let st' = page_step parse startD endD conn st
           in edges_or_empty conn @
              (if length (allOrders st') > 1000 then []
               else inspected parse startD endD rs st')))"

definition initial_state :: loop_state where
  "initial_state = \<lparr> allOrders = [], cursor = None, hasNextPage = True \<rparr>"

subsection \<open>Building the rows (lines 133 to 166)\<close>

text \<open>
  A cell of the stock table is a number or a string (the placeholder \<open>"-"\<close>).
\<close>

datatype cell = Num int | Str string

text \<open>
  A JavaScript object used as a dictionary is a list of its own properties in insertion
  order, with distinct keys. (Keys that are array indices are enumerated first by
  JavaScript; no key of \<open>grouped\<close> is one, since each contains \<open>||\<close>, and the order
  of the properties of a \<open>locations\<close> object is never observed: it is read by key.)
\<close>

type_synonym 'v js_object = "(string \<times> 'v) list"

text \<open>
  \<open>obj[k] = v\<close> for a primitive value \<open>v\<close> on an object created by \<open>{}\<close>: the
  property is replaced or added, except that the key \<open>__proto__\<close> reaches the setter
  of \<open>Object.prototype\<close>, which ignores a value that is no object.
\<close>

definition assign :: "string \<Rightarrow> 'v \<Rightarrow> 'v js_object \<Rightarrow> 'v js_object" where
  "assign k v obj = (if k = ''__proto__'' then obj else AList.update k v obj)"

text \<open>\<open>Set.prototype.add\<close> on a set kept in insertion order.\<close>

definition set_add :: "'a \<Rightarrow> 'a list \<Rightarrow> 'a list" where
  "set_add x xs = (if x \<in> set xs then xs else xs @ [x])"

text \<open>
  \<open>s || d\<close> for an optional string \<open>s\<close>: \<open>null\<close>, \<open>undefined\<close> and the empty string
  are falsy.
\<close>

definition or_default :: "string option \<Rightarrow> string \<Rightarrow> string" where
  "or_default s d = (case s of None \<Rightarrow> d | Some x \<Rightarrow> if x = [] then d else x)"

record row =
  productTitle :: string
  productVariantTitle :: string
  sku :: string
  vendor :: string
  productType :: string
  netItemsSold :: int
  locations :: "cell js_object"

text \<open>
  Lines 149 to 153: one inventory level of a line item. Optional chaining \<open>a?.f\<close> is
  \<open>Option.bind a f\<close>.
\<close>

definition level_key :: "inventory_level \<Rightarrow> string" where
  "level_key lvl = or_default (Option.bind (location lvl) loc_name) ''Unknown''"

definition level_value :: "inventory_level \<Rightarrow> cell" where
  "level_value lvl =
     (case Option.bind (quantities lvl) (List.find (\<lambda>q. q_name q = ''available'')) of
        None \<Rightarrow> Str ''-''
      | Some avail \<Rightarrow> Num (q_quantity avail))"

definition level_step ::
  "string list \<times> cell js_object \<Rightarrow> inventory_level edge \<Rightarrow> string list \<times> cell js_object" where
  "level_step acc lvlEdge =
     (let lvl = node lvlEdge;
          loc = level_key lvl
      in (set_add loc (fst acc), assign loc (level_value lvl) (snd acc)))"

text \<open>Line 145.\<close>

definition levels_of :: "variant_node option \<Rightarrow> inventory_level edge list" where
  "levels_of v =
     (case Option.bind (Option.bind v v_inventoryItem) inventoryLevels of
        None \<Rightarrow> []
      | Some es \<Rightarrow> es)"

text \<open>Lines 156 to 164: the row of a line item, given its location data.\<close>

definition make_row ::
  "product_node option \<Rightarrow> variant_node option \<Rightarrow> int \<Rightarrow> cell js_object \<Rightarrow> row" where
  "make_row p v qty locData =
     \<lparr> productTitle = or_default (Option.bind p p_title) ''N/A'',
       productVariantTitle = or_default (Option.bind v v_title) ''N/A'',
       sku = or_default (Option.bind v v_sku) ''N/A'',
       vendor = or_default (Option.bind p p_vendor) ''N/A'',
       productType = or_default (Option.bind p p_productType) ''N/A'',
       netItemsSold = qty,
       locations = locData \<rparr>"

text \<open>
  Lines 140 to 164: one line item. The state is \<open>(rawRows, locationNames)\<close>; the
  location data start empty for each line item, the set of names is shared.
\<close>

definition item_step :: "row list \<times> string list \<Rightarrow> line_item edge \<Rightarrow> row list \<times> string list" where
  "item_step acc liEdge =
     (let n = node liEdge;
          p = product n;
          v = variant n;
          qty = quantity n;
          walked = foldl level_step (snd acc, []) (levels_of v)
      in (fst acc @ [make_row p v qty (snd walked)], fst walked))"

definition order_step :: "row list \<times> string list \<Rightarrow> order_node edge \<Rightarrow> row list \<times> string list" where
  "order_step acc orderEdge = foldl item_step acc (lineItems (node orderEdge))"

definition build_rows :: "order_node edge list \<Rightarrow> row list \<times> string list" where
  "build_rows matched = foldl order_step ([], []) matched"

subsection \<open>Grouping and sorting (lines 172 to 200)\<close>

definition row_key :: "row \<Rightarrow> string" where
  "row_key r = productTitle r @ ''||'' @ productVariantTitle r @ ''||'' @ sku r"

text \<open>Lines 178 to 186: the group that a row opens.\<close>

definition new_group :: "row \<Rightarrow> row" where
  "new_group r =
     \<lparr> productTitle = productTitle r,
       productVariantTitle = productVariantTitle r,
       sku = sku r,
       vendor = vendor r,
       productType = productType r,
       netItemsSold = 0,
       locations = [] \<rparr>"

text \<open>
  Lines 189 to 194: a row is added to its group. Quantities are whole numbers far below
  \<open>2^53\<close>, so the addition of JavaScript numbers is exact. The loop over
  \<open>Object.keys(r.locations)\<close> reads each own property of the row's object once.
\<close>

definition add_row :: "row \<Rightarrow> row \<Rightarrow> row" where
  "add_row g r =
     g \<lparr> netItemsSold := netItemsSold g + netItemsSold r,
         locations := foldl (\<lambda>ls kv. assign (fst kv) (snd kv) ls) (locations g) (locations r) \<rparr>"

text \<open>
  One pass of the loop of lines 174 to 195. The source creates the group when the key
  is new, then updates the group in place; here the updated group is stored under the
  key, which keeps the position of an old key and puts a new key last.
\<close>

definition group_step :: "row js_object \<Rightarrow> row \<Rightarrow> row js_object" where
  "group_step grouped r =
     (let key = row_key r;
          g = (case map_of grouped key of None \<Rightarrow> new_group r | Some g' \<Rightarrow> g')
      in AList.update key (add_row g r) grouped)"

definition group_rows :: "row list \<Rightarrow> row js_object" where
  "group_rows rawRows = foldl group_step [] rawRows"

text \<open>
  \<open>Array.prototype.sort\<close> with a comparator is a stable sort; for a consistent
  comparator every stable sort gives the same array, so insertion is as good as any.
\<close>

fun insert_by :: "('a \<Rightarrow> 'a \<Rightarrow> int) \<Rightarrow> 'a \<Rightarrow> 'a list \<Rightarrow> 'a list" where
  "insert_by cmp x [] = [x]"
| "insert_by cmp x (y # ys) = (if cmp x y \<le> 0 then x # y # ys else y # insert_by cmp x ys)"

fun sort_by :: "('a \<Rightarrow> 'a \<Rightarrow> int) \<Rightarrow> 'a list \<Rightarrow> 'a list" where
  "sort_by cmp [] = []"
| "sort_by cmp (x # xs) = insert_by cmp x (sort_by cmp xs)"

subsection \<open>The action\<close>

record platform =
  parseDate :: "string \<Rightarrow> date"
  localTZA :: "int \<Rightarrow> bool \<Rightarrow> int"
  localeCompare :: "string \<Rightarrow> string \<Rightarrow> int"
  now :: string

record report =
  rows :: "row list"
  locationNames :: "string list"
  timestamp :: string
  startDate :: string
  endDate :: string

definition final_rows :: "platform \<Rightarrow> order_node edge list \<Rightarrow> row list" where
  "final_rows pf matched =
     sort_by (\<lambda>a b. localeCompare pf (sku a) (sku b))
       (map snd (group_rows (fst (build_rows matched))))"

text \<open>
  The action returns \<open>None\<close> when the given replies end while the loop still asks
  for a page: such a run has not returned yet.
\<close>

definition action :: "platform \<Rightarrow> string \<Rightarrow> string \<Rightarrow> response list \<Rightarrow> report option" where
  "action pf startDateStr endDateStr rs =
     (let startD = parseDate pf startDateStr;
          endD = setSeconds (localTZA pf) 59 999 (parseDate pf endDateStr)
      in case fetch_loop (parseDate pf) startD endD rs initial_state of
           Pending st \<Rightarrow> None
         | Finished st \<Rightarrow>
             Some \<lparr> rows = final_rows pf (allOrders st),
                    locationNames = snd (build_rows (allOrders st)),
                    timestamp = now pf,
                    startDate = startDateStr,
                    endDate = endDateStr \<rparr>)"

subsection \<open>Notions used to state the properties\<close>

text \<open>The number of order edges in a reply (the query asks for pages of 50).\<close>

definition page_size :: "response \<Rightarrow> nat" where
  "page_size r = (case orders r of None \<Rightarrow> 0 | Some conn \<Rightarrow> length (edges_or_empty conn))"

text \<open>
  A reply that makes the loop stop whatever has been accumulated: an error report, a
  missing \<open>orders\<close> payload, or a last page.
\<close>

definition closes :: "response \<Rightarrow> bool" where
  "closes r =
     (errors r \<or> (case orders r of None \<Rightarrow> True | Some conn \<Rightarrow> \<not> pi_hasNextPage (pageInfo conn)))"

text \<open>
  The window of the specification, on time values: \<open>start \<le> t \<le> end'\<close>, false for a
  timestamp that is no time value. \<open>end_of_minute off b\<close> is the last millisecond of
  the minute that contains the time value \<open>b\<close>, in local time of offset \<open>off\<close>.
\<close>

definition in_window :: "int \<Rightarrow> date \<Rightarrow> date \<Rightarrow> bool" where
  "in_window a endD' created =
     (case created of
        None \<Rightarrow> False
      | Some t \<Rightarrow> (case endD' of None \<Rightarrow> False | Some b' \<Rightarrow> a \<le> t \<and> t \<le> b'))"

definition end_of_minute :: "int \<Rightarrow> int \<Rightarrow> int" where
  "end_of_minute off b = (b + off) - (b + off) mod 60000 + 59999 - off"

text \<open>
  The time zone reads the adjusted local time of \<open>b\<close> under the offset in force at \<open>b\<close>.
  It does not when the local time occurs twice and \<open>b\<close> is the later of its two
  instants.
\<close>

definition same_offset :: "(int \<Rightarrow> bool \<Rightarrow> int) \<Rightarrow> int \<Rightarrow> bool" where
  "same_offset tza b =
     (tza (LocalTime tza b - LocalTime tza b mod 60000 + 59999) False = tza b True)"

text \<open>The order edges that a reply carries, whether or not the loop reads them.\<close>

definition reply_edges :: "response \<Rightarrow> order_node edge list" where
  "reply_edges r = (case orders r of None \<Rightarrow> [] | Some conn \<Rightarrow> edges_or_empty conn)"

text \<open>The grouping triple of the specification, and the rows of a list that carry a triple.\<close>

definition triple :: "row \<Rightarrow> string \<times> string \<times> string" where
  "triple r = (productTitle r, productVariantTitle r, sku r)"

definition rows_of_triple :: "string \<times> string \<times> string \<Rightarrow> row list \<Rightarrow> row list" where
  "rows_of_triple t rs = filter (\<lambda>r. triple r = t) rs"

text \<open>
  The overwrite-merge of the location maps of a list of rows, in the order of the list:
  for each location the last row that reports it wins.
\<close>

definition overwrite_merge :: "row list \<Rightarrow> (string \<rightharpoonup> cell)" where
  "overwrite_merge rs = foldl (\<lambda>m r. m ++ map_of (locations r)) Map.empty rs"




text \<open>
  The objects that the program builds by assignment have distinct keys, none of which
  is \<open>__proto__\<close>.
\<close>

definition own_keys_ok :: "'v js_object \<Rightarrow> bool" where
  "own_keys_ok obj = (distinct (map fst obj) \<and> ''__proto__'' \<notin> set (map fst obj))"

text \<open>The location data and the row that the flattener builds for one line item.\<close>

definition locData_of :: "line_item edge \<Rightarrow> cell js_object" where
  "locData_of liEdge = snd (foldl level_step ([], []) (levels_of (variant (node liEdge))))"

definition row_of :: "line_item edge \<Rightarrow> row" where
  "row_of liEdge =
     make_row (product (node liEdge)) (variant (node liEdge)) (quantity (node liEdge))
       (locData_of liEdge)"

text \<open>The rows of a list that are grouped under a key.\<close>

definition rows_of_key :: "string \<Rightarrow> row list \<Rightarrow> row list" where
  "rows_of_key k rs = filter (\<lambda>r. row_key r = k) rs"

text \<open>The line items of a list of orders, in the order in which the rows are built.\<close>

definition items_of :: "order_node edge list \<Rightarrow> line_item edge list" where
  "items_of matched = concat (map (\<lambda>orderEdge. lineItems (node orderEdge)) matched)"

subsection \<open>Sample data\<close>

text \<open>
  A platform whose date parser knows the strings of the samples (every other string is
  an invalid date), in UTC, with the code-unit order of strings as collation.
\<close>

definition demo_compare :: "string \<Rightarrow> string \<Rightarrow> int" where
  "demo_compare a b = (if a = b then 0 else if a < b then - 1 else 1)"

definition demo_platform :: platform where
  "demo_platform =
     \<lparr> parseDate = map_of
         [(''2024-01-01T00:00'', 1704067200000),
          (''2024-01-01T23:59'', 1704153540000),
          (''2024-01-01T10:00:00Z'', 1704103200000),
          (''2024-01-01T23:59:30Z'', 1704153570000),
          (''2024-01-02T00:01:00Z'', 1704153660000)],
       localTZA = (\<lambda>t isUTC. 0),
       localeCompare = demo_compare,
       now = ''1/3/2024, 9:00:00 AM'' \<rparr>"

definition mk_level :: "string option \<Rightarrow> int option \<Rightarrow> inventory_level edge" where
  "mk_level nm q =
     \<lparr> node = \<lparr> quantities =
                   (case q of None \<Rightarrow> None
                    | Some n \<Rightarrow> Some [\<lparr> q_name = ''available'', q_quantity = n \<rparr>]),
                 location = Some \<lparr> loc_name = nm \<rparr> \<rparr> \<rparr>"

text \<open>
  A level without location whose first quantity is not the available one.
\<close>

definition mixed_level :: "inventory_level edge" where
  "mixed_level =
     \<lparr> node = \<lparr> quantities = Some [\<lparr> q_name = ''on_hand'', q_quantity = 9 \<rparr>,
                                     \<lparr> q_name = ''available'', q_quantity = 6 \<rparr>],
                 location = None \<rparr> \<rparr>"

definition mk_item ::
  "string option \<Rightarrow> string option \<Rightarrow> string option \<Rightarrow> string option \<Rightarrow> int
     \<Rightarrow> inventory_level edge list \<Rightarrow> line_item edge" where
  "mk_item title vend vtitle vsku qty lvls =
     \<lparr> node = \<lparr> quantity = qty,
                 product = Some \<lparr> p_title = title, p_vendor = vend,
                                  p_productType = Some ''Toys'' \<rparr>,
                 variant = Some \<lparr> v_title = vtitle, v_sku = vsku,
                                  v_inventoryItem = Some \<lparr> inventoryLevels = Some lvls \<rparr> \<rparr> \<rparr> \<rparr>"

definition mk_order :: "string \<Rightarrow> line_item edge list \<Rightarrow> order_node edge" where
  "mk_order created items = \<lparr> node = \<lparr> createdAt = created, lineItems = items \<rparr> \<rparr>"

definition mk_page :: "order_node edge list \<Rightarrow> bool \<Rightarrow> response" where
  "mk_page es hasMore =
     \<lparr> errors = False,
       orders = Some \<lparr> edges = Some es,
                       pageInfo = \<lparr> pi_hasNextPage = hasMore, pi_endCursor = Some ''c'' \<rparr> \<rparr> \<rparr>"

definition demo_order1 :: "order_node edge" where
  "demo_order1 = mk_order ''2024-01-01T10:00:00Z''
     [mk_item (Some ''Robot'') (Some ''Acme'') (Some ''Red'') (Some ''ZED-9'') 3
        [mk_level (Some ''Warehouse A'') (Some 10)],
      mk_item (Some ''Gift'') (Some ''Acme'') None None 1 []]"

definition demo_order2 :: "order_node edge" where
  "demo_order2 = mk_order ''2024-01-02T00:01:00Z''
     [mk_item (Some ''Late'') (Some ''Acme'') (Some ''Green'') (Some ''LATE-1'') 7 []]"

definition demo_order3 :: "order_node edge" where
  "demo_order3 = mk_order ''2024-01-01T23:59:30Z''
     [mk_item (Some ''Robot'') (Some ''Bolt'') (Some ''Red'') (Some ''ZED-9'') 5
        [mk_level None (Some 4), mixed_level, mk_level (Some ''Warehouse A'') (Some 7)],
      mk_item (Some ''Gift'') (Some ''Other'') None None 2 [],
      mk_item (Some ''Ball'') (Some ''Acme'') (Some ''Blue'') (Some ''ABC123'') 2 [],
      \<lparr> node = \<lparr> quantity = 4, product = None, variant = None \<rparr> \<rparr>]"

definition demo_replies :: "response list" where
  "demo_replies = [mk_page [demo_order1, demo_order2] True, mk_page [demo_order3] False]"

text \<open>
  The orders of these replies inside the first day of 2024, and the report of the
  action for that day.
\<close>

definition demo_matched :: "order_node edge list" where
  "demo_matched = [demo_order1, demo_order3]"

definition robot_group :: row where
  "robot_group =
     \<lparr> productTitle = ''Robot'', productVariantTitle = ''Red'', sku = ''ZED-9'',
       vendor = ''Acme'', productType = ''Toys'', netItemsSold = 8,
       locations = [(''Warehouse A'', Num 7), (''Unknown'', Num 6)] \<rparr>"

definition demo_report :: report where
  "demo_report =
     \<lparr> rows =
         [\<lparr> productTitle = ''Ball'', productVariantTitle = ''Blue'', sku = ''ABC123'',
             vendor = ''Acme'', productType = ''Toys'', netItemsSold = 2, locations = [] \<rparr>,
          \<lparr> productTitle = ''Gift'', productVariantTitle = ''N/A'', sku = ''N/A'',
             vendor = ''Acme'', productType = ''Toys'', netItemsSold = 3, locations = [] \<rparr>,
          \<lparr> productTitle = ''N/A'', productVariantTitle = ''N/A'', sku = ''N/A'',
             vendor = ''N/A'', productType = ''N/A'', netItemsSold = 4, locations = [] \<rparr>,
          robot_group],
       locationNames = [''Warehouse A'', ''Unknown''],
       timestamp = ''1/3/2024, 9:00:00 AM'',
       startDate = ''2024-01-01T00:00'',
       endDate = ''2024-01-01T23:59'' \<rparr>"


text \<open>A reply that reports errors and carries data: an order inside the window.\<close>

definition partial_error_reply :: response where
  "partial_error_reply =
     \<lparr> errors = True,
       orders = Some \<lparr> edges = Some [demo_order1],
                       pageInfo = \<lparr> pi_hasNextPage = False, pi_endCursor = None \<rparr> \<rparr> \<rparr>"

text \<open>
  A platform in the time zone of New York around 3 November 2024, when daylight saving
  ended at 06:00 UTC: four hours behind UTC before, five hours after, and the local
  hour from 01:00 to 02:00 occurred twice. An order of 06:00 UTC on that day.
\<close>

definition ny_offset :: "int \<Rightarrow> bool \<Rightarrow> int" where
  "ny_offset t isUTC =
     (if isUTC then (if t < 1730613600000 then - 14400000 else - 18000000)
      else (if t < 1730613600000 - 14400000 then - 14400000 else - 18000000))"

definition ny_platform :: platform where
  "ny_platform =
     \<lparr> parseDate = map_of
         [(''2024-11-03T00:00Z'', 1730592000000),
          (''2024-11-03T06:30Z'', 1730615400000),
          (''2024-11-03T06:00:00Z'', 1730613600000)],
       localTZA = ny_offset,
       localeCompare = demo_compare,
       now = ''11/4/2024, 9:00:00 AM'' \<rparr>"

definition dst_order :: "order_node edge" where
  "dst_order = mk_order ''2024-11-03T06:00:00Z''
     [mk_item (Some ''Robot'') (Some ''Acme'') (Some ''Red'') (Some ''ZED-9'') 1 []]"


text \<open>A full page of 50 orders inside the window, with more pages to come.\<close>

definition full_page :: response where
  "full_page = mk_page (replicate 50 demo_order1) True"


section \<open>Properties\<close>

subsection \<open>The pagination loop\<close>

lemma for_edges_filter:
  "for_edges parse s e acc es = acc @ filter (in_range parse s e) es"
  unfolding for_edges_def
  by (induction es arbitrary: acc) (simp_all add: push_if_in_range_def)

lemma allOrders_page_step:
  "allOrders (page_step parse s e conn st)
     = allOrders st @ filter (in_range parse s e) (edges_or_empty conn)"
  by (simp add: page_step_def for_edges_filter)

lemma length_page_step:
  "length (allOrders (page_step parse s e conn st))
     \<le> length (allOrders st) + length (edges_or_empty conn)"
  by (simp add: allOrders_page_step)

lemma fetch_loop_pending_le:
  "fetch_loop parse s e rs st = Pending st' \<Longrightarrow> length (allOrders st) \<le> 1000
     \<Longrightarrow> length (allOrders st') \<le> 1000"
proof (induction rs arbitrary: st)
  case Nil
  then show ?case by (simp split: if_splits)
next
  case (Cons r rs)
  then show ?case
    by (auto simp: Let_def split: if_splits option.splits)
qed

lemma fetch_loop_bound:
  "length (allOrders st) \<le> 1000 \<Longrightarrow> \<forall>r\<in>set rs. page_size r \<le> n
     \<Longrightarrow> length (allOrders (run_state (fetch_loop parse s e rs st))) \<le> 1000 + n"
proof (induction rs arbitrary: st)
  case Nil
  then show ?case by simp
next
  case (Cons r rs)
  show ?case
  proof (cases "orders r")
    case None
    with Cons.prems show ?thesis by simp
  next
    case (Some conn)
    let ?st' = "page_step parse s e conn st"
    from Cons.prems Some have sz: "length (edges_or_empty conn) \<le> n"
      by (simp add: page_size_def)
    have le: "length (allOrders ?st') \<le> 1000 + n"
      using length_page_step [of parse s e conn st] Cons.prems(1) sz by linarith
    show ?thesis
    proof (cases "length (allOrders ?st') > 1000")
      case True
      with Some Cons.prems(1) le show ?thesis by (simp add: Let_def)
    next
      case False
      then have "length (allOrders ?st') \<le> 1000" by simp
      from Cons.IH [OF this] Cons.prems(2)
      have "length (allOrders (run_state (fetch_loop parse s e rs ?st'))) \<le> 1000 + n" by simp
      with Some Cons.prems(1) False show ?thesis by (simp add: Let_def)
    qed
  qed
qed

lemma for_edges_take_le:
  "length (for_edges parse s e acc (take k es)) \<le> length acc + length es"
proof -
  have "length (filter (in_range parse s e) (take k es)) \<le> length (take k es)"
    by (rule length_filter_le)
  then show ?thesis by (simp add: for_edges_filter)
qed

text \<open>The window of the samples, and a run over full pages of matching orders.\<close>

lemma demo_window:
  "parseDate demo_platform ''2024-01-01T00:00'' = Some 1704067200000"
  "setSeconds (localTZA demo_platform) 59 999 (parseDate demo_platform ''2024-01-01T23:59'')
     = Some 1704153599999"
  by (simp_all add: demo_platform_def setSeconds_def LocalTime_def UTC_def TimeClip_def
        MakeDate_def MakeTime_def Day_def HourFromTime_def MinFromTime_def)

lemma demo_order1_in_range:
  "in_range (parseDate demo_platform) (Some 1704067200000) (Some 1704153599999) demo_order1"
  by (simp add: in_range_def demo_platform_def demo_order1_def mk_order_def date_ge_def
        date_le_def)

lemma full_page_step:
  "allOrders (page_step (parseDate demo_platform) (Some 1704067200000) (Some 1704153599999)
      \<lparr> edges = Some (replicate 50 demo_order1),
        pageInfo = \<lparr> pi_hasNextPage = True, pi_endCursor = Some ''c'' \<rparr> \<rparr> st)
     = allOrders st @ replicate 50 demo_order1"
  "hasNextPage (page_step (parseDate demo_platform) (Some 1704067200000) (Some 1704153599999)
      \<lparr> edges = Some (replicate 50 demo_order1),
        pageInfo = \<lparr> pi_hasNextPage = True, pi_endCursor = Some ''c'' \<rparr> \<rparr> st)"
   apply (simp add: allOrders_page_step edges_or_empty_def demo_order1_in_range)
  apply (simp add: page_step_def)
  done

lemma full_pages_length:
  "hasNextPage st \<Longrightarrow> length (allOrders st) + 50 * n \<le> 1000 \<Longrightarrow>
   length (allOrders (run_state (fetch_loop (parseDate demo_platform) (Some 1704067200000)
      (Some 1704153599999) (replicate n full_page @ [full_page]) st)))
     = length (allOrders st) + 50 * n + 50"
proof (induction n arbitrary: st)
  case 0
  then show ?case by (simp add: full_page_def mk_page_def Let_def full_page_step)
next
  case (Suc n)
  let ?st' = "page_step (parseDate demo_platform) (Some 1704067200000) (Some 1704153599999)
      \<lparr> edges = Some (replicate 50 demo_order1),
        pageInfo = \<lparr> pi_hasNextPage = True, pi_endCursor = Some ''c'' \<rparr> \<rparr> st"
  have len: "length (allOrders ?st') = length (allOrders st) + 50"
    by (simp add: full_page_step)
  have "length (allOrders (run_state (fetch_loop (parseDate demo_platform) (Some 1704067200000)
      (Some 1704153599999) (replicate n full_page @ [full_page]) ?st')))
     = length (allOrders ?st') + 50 * n + 50"
    using Suc.prems by (intro Suc.IH) (simp_all add: full_page_step)
  moreover have "fetch_loop (parseDate demo_platform) (Some 1704067200000)
      (Some 1704153599999) (replicate (Suc n) full_page @ [full_page]) st
     = fetch_loop (parseDate demo_platform) (Some 1704067200000)
      (Some 1704153599999) (replicate n full_page @ [full_page]) ?st'"
    using Suc.prems len by (simp add: full_page_def mk_page_def Let_def)
  ultimately show ?case using len by simp
qed

lemma page_size_full_page: "page_size full_page = 50"
  by (simp add: page_size_def full_page_def mk_page_def edges_or_empty_def)

text \<open>
  Claim C1, as the specification states it: the loop never accumulates more than 1000
  matched orders. The guard of line 123 is tested once for each page, after the whole
  page has been pushed, and it lets the loop go on at exactly 1000. With 21 full pages
  of 50 orders inside the window, the list holds 1000 orders after the twentieth page
  and 1050 after the twenty-first, where the loop stops.
\<close>

theorem C1_cap_counterexample:
  "length (allOrders (run_state (fetch_loop (parseDate demo_platform)
      (parseDate demo_platform ''2024-01-01T00:00'')
      (setSeconds (localTZA demo_platform) 59 999 (parseDate demo_platform ''2024-01-01T23:59''))
      (replicate 21 full_page) initial_state))) = 1050"
proof -
  have "replicate (20 + 1) full_page = replicate 20 full_page @ replicate 1 full_page"
    by (rule replicate_add)
  then have "replicate 21 full_page = replicate 20 full_page @ [full_page]"
    by simp
  then show ?thesis
    using full_pages_length [of initial_state 20]
    by (simp add: demo_window initial_state_def)
qed

text \<open>
  Claim C1, amended: whenever the loop requests a page, the list holds at most 1000
  matched orders, in every run; while a page of at most 50 orders is read, the list
  never holds more than 1050; and when no page has more than 50 orders (the page size
  the query asks for), the list holds at most 1050 orders after any number of replies
  and after the loop.
\<close>

theorem C1_cap_amended:
  "(\<forall>st. fetch_loop parse s e rs initial_state = Pending st \<longrightarrow>
      length (allOrders st) \<le> 1000 \<and>
      (\<forall>es k. length es \<le> 50 \<longrightarrow>
         length (for_edges parse s e (allOrders st) (take k es)) \<le> 1050)) \<and>
   ((\<forall>r\<in>set rs. page_size r \<le> 50) \<longrightarrow>
      length (allOrders (run_state (fetch_loop parse s e rs initial_state))) \<le> 1050)"
proof -
  have init: "length (allOrders initial_state) \<le> 1000"
    by (simp add: initial_state_def)
  have a: "length (allOrders (run_state (fetch_loop parse s e rs initial_state))) \<le> 1050"
    if "\<forall>r\<in>set rs. page_size r \<le> 50"
    using fetch_loop_bound [OF init that, of parse s e] by simp
  have b: "length (allOrders st) \<le> 1000"
    if "fetch_loop parse s e rs initial_state = Pending st" for st
    using fetch_loop_pending_le [OF that init] .
  have c: "length (for_edges parse s e (allOrders st) (take k es)) \<le> 1050"
    if "fetch_loop parse s e rs initial_state = Pending st" and "length es \<le> 50" for st es k
    using for_edges_take_le [of parse s e "allOrders st" k es] b [OF that(1)] that(2)
    by linarith
  from a b c show ?thesis by blast
qed

theorem C1_cap_amended_witness:
  "page_size full_page \<le> 50 \<and>
   fetch_loop (parseDate demo_platform) (Some 1704067200000) (Some 1704153599999)
       [full_page] initial_state
     = Pending \<lparr> allOrders = replicate 50 demo_order1, cursor = Some ''c'',
                 hasNextPage = True \<rparr> \<and>
   length (replicate 50 demo_order1) \<le> 50 \<and>
   length (allOrders (run_state (fetch_loop (parseDate demo_platform) (Some 1704067200000)
       (Some 1704153599999) [full_page] initial_state))) \<le> 1050 \<and>
   length (replicate 50 demo_order1) \<le> 1000 \<and>
   length (for_edges (parseDate demo_platform) (Some 1704067200000) (Some 1704153599999)
       (replicate 50 demo_order1) (take 7 (replicate 50 demo_order1))) \<le> 1050"
proof -
  have h: "\<forall>r\<in>set [full_page]. page_size r \<le> 50"
    by (simp add: page_size_full_page)
  have p: "fetch_loop (parseDate demo_platform) (Some 1704067200000) (Some 1704153599999)
       [full_page] initial_state
     = Pending \<lparr> allOrders = replicate 50 demo_order1, cursor = Some ''c'',
                 hasNextPage = True \<rparr>"
    by (simp add: full_page_def mk_page_def Let_def initial_state_def page_step_def
          for_edges_filter edges_or_empty_def demo_order1_in_range)
  note t = C1_cap_amended [of "parseDate demo_platform" "Some 1704067200000"
      "Some 1704153599999" "[full_page]"]
  note q = t [THEN conjunct1, rule_format, OF p]
  have a: "length (allOrders (run_state (fetch_loop (parseDate demo_platform)
       (Some 1704067200000) (Some 1704153599999) [full_page] initial_state))) \<le> 1050"
    by (rule t [THEN conjunct2, THEN mp, OF h])
  have b: "length (replicate 50 demo_order1) \<le> 1000"
    using q [THEN conjunct1] by simp
  have l: "length (replicate 50 demo_order1) \<le> 50"
    by simp
  have c: "length (for_edges (parseDate demo_platform) (Some 1704067200000)
       (Some 1704153599999) (replicate 50 demo_order1) (take 7 (replicate 50 demo_order1)))
       \<le> 1050"
    using q [THEN conjunct2, rule_format, OF l, of 7] by (simp only: loop_state.simps)
  have h': "page_size full_page \<le> 50"
    by (simp add: page_size_full_page)
  from h' p l a b c show ?thesis by blast
qed

subsection \<open>The date window, remote errors and invalid dates\<close>

lemma fetch_loop_inspected:
  "allOrders (run_state (fetch_loop parse s e rs st))
     = allOrders st @ filter (in_range parse s e) (inspected parse s e rs st)"
proof (induction rs arbitrary: st)
  case Nil
  then show ?case by simp
next
  case (Cons r rs)
  show ?case
  proof (cases "orders r")
    case None
    then show ?thesis by simp
  next
    case (Some conn)
    then show ?thesis
      using Cons.IH [of "page_step parse s e conn st"]
      by (simp add: Let_def allOrders_page_step)
  qed
qed

lemma in_range_in_window:
  "in_range parse (Some a) endD' = (\<lambda>edge. in_window a endD' (parse (createdAt (node edge))))"
  by (rule ext) (simp add: in_range_def in_window_def date_ge_def date_le_def Let_def
      split: option.splits)

lemma minute_floor:
  "MakeDate (Day t) (MakeTime (HourFromTime t) (MinFromTime t) sec milli)
     = t - t mod 60000 + sec * 1000 + milli"
proof -
  define q where "q = t div 60000"
  have h: "t div 3600000 = q div 60"
    unfolding q_def by (simp add: zdiv_zmult2_eq [symmetric])
  have d: "t div 86400000 = q div 60 div 24"
    unfolding q_def by (simp add: zdiv_zmult2_eq [symmetric])
  have "q div 60 div 24 * 86400000 + (q div 60 mod 24) * 3600000 + (q mod 60) * 60000
          = q * 60000"
    by presburger
  moreover have "q * 60000 = t - t mod 60000"
    unfolding q_def by (simp add: minus_mod_eq_div_mult)
  ultimately show ?thesis
    by (simp add: MakeDate_def MakeTime_def Day_def HourFromTime_def MinFromTime_def h d
        flip: q_def)
qed

lemma setSeconds_end_of_minute:
  assumes "same_offset tza b"
  shows "setSeconds tza 59 999 (Some b) = TimeClip (end_of_minute (tza b True) b)"
proof -
  let ?t = "LocalTime tza b"
  have d: "MakeDate (Day ?t) (MakeTime (HourFromTime ?t) (MinFromTime ?t) 59 999)
      = ?t - ?t mod 60000 + 59999"
    using minute_floor [of ?t 59 999] by simp
  have "UTC tza (?t - ?t mod 60000 + 59999) = ?t - ?t mod 60000 + 59999 - tza b True"
    using assms by (simp add: UTC_def same_offset_def)
  also have "\<dots> = end_of_minute (tza b True) b"
    by (simp add: end_of_minute_def LocalTime_def)
  finally show ?thesis
    by (simp add: setSeconds_def Let_def d)
qed

lemma inspected_prefix:
  "\<exists>k\<le>length rs. inspected parse s e rs st = concat (map reply_edges (take k rs)) \<and>
      (\<forall>r\<in>set (take k rs). \<not> errors r \<and> orders r \<noteq> None)"
proof (induction rs arbitrary: st)
  case Nil
  then show ?case by simp
next
  case (Cons r rs)
  show ?case
  proof (cases "hasNextPage st \<and> \<not> errors r \<and> orders r \<noteq> None")
    case False
    then have "inspected parse s e (r # rs) st = []"
      by (auto split: option.splits)
    then have "inspected parse s e (r # rs) st = concat (map reply_edges (take 0 (r # rs))) \<and>
        (\<forall>r'\<in>set (take 0 (r # rs)). \<not> errors r' \<and> orders r' \<noteq> None)"
      by simp
    then show ?thesis by blast
  next
    case True
    then obtain conn where conn: "orders r = Some conn" by blast
    let ?st' = "page_step parse s e conn st"
    have re: "reply_edges r = edges_or_empty conn"
      by (simp add: reply_edges_def conn)
    show ?thesis
    proof (cases "length (allOrders ?st') > 1000")
      case over: True
      with True conn have "inspected parse s e (r # rs) st = edges_or_empty conn"
        by (simp add: Let_def)
      with True re have "inspected parse s e (r # rs) st
            = concat (map reply_edges (take (Suc 0) (r # rs))) \<and>
          (\<forall>r'\<in>set (take (Suc 0) (r # rs)). \<not> errors r' \<and> orders r' \<noteq> None)"
        by simp
      moreover have "Suc 0 \<le> length (r # rs)" by simp
      ultimately show ?thesis by blast
    next
      case under: False
      from Cons.IH [of ?st'] obtain k where k: "k \<le> length rs"
        and i: "inspected parse s e rs ?st' = concat (map reply_edges (take k rs))"
        and ok: "\<forall>r'\<in>set (take k rs). \<not> errors r' \<and> orders r' \<noteq> None"
        by blast
      from True conn under i have "inspected parse s e (r # rs) st
          = edges_or_empty conn @ concat (map reply_edges (take k rs))"
        by (simp add: Let_def)
      with True re ok have "inspected parse s e (r # rs) st
            = concat (map reply_edges (take (Suc k) (r # rs))) \<and>
          (\<forall>r'\<in>set (take (Suc k) (r # rs)). \<not> errors r' \<and> orders r' \<noteq> None)"
        by simp
      moreover from k have "Suc k \<le> length (r # rs)" by simp
      ultimately show ?thesis by blast
    qed
  qed
qed

text \<open>
  Claim C2, amended. The orders that the loop inspects are the orders of the replies
  it reads: the first replies of the run, each without reported errors and with an
  orders payload. For valid parsed dates with time values \<open>a\<close> and \<open>b\<close>, where the time
  zone reads the adjusted local time of \<open>b\<close> under the offset in force at \<open>b\<close>, the
  matched-order list is exactly the list of the inspected orders whose creation
  timestamp \<open>t\<close> is a time value with \<open>a \<le> t \<le> b'\<close>, where \<open>b'\<close> is the last millisecond
  of the local minute of \<open>b\<close> (seconds and milliseconds set to 59 and 999), in the order
  in which they were fetched.
\<close>

theorem C2_range_filter:
  assumes "parseDate pf startDateStr = Some a" and "parseDate pf endDateStr = Some b"
    and "same_offset (localTZA pf) b"
  shows "allOrders (run_state (fetch_loop (parseDate pf) (parseDate pf startDateStr)
            (setSeconds (localTZA pf) 59 999 (parseDate pf endDateStr)) rs initial_state))
         = filter (\<lambda>edge. in_window a (TimeClip (end_of_minute (localTZA pf b True) b))
                            (parseDate pf (createdAt (node edge))))
             (inspected (parseDate pf) (parseDate pf startDateStr)
                (setSeconds (localTZA pf) 59 999 (parseDate pf endDateStr)) rs initial_state) \<and>
         (\<exists>k\<le>length rs.
            inspected (parseDate pf) (parseDate pf startDateStr)
                (setSeconds (localTZA pf) 59 999 (parseDate pf endDateStr)) rs initial_state
              = concat (map reply_edges (take k rs)) \<and>
            (\<forall>r\<in>set (take k rs). \<not> errors r \<and> orders r \<noteq> None))"
proof -
  have "allOrders (run_state (fetch_loop (parseDate pf) (parseDate pf startDateStr)
            (setSeconds (localTZA pf) 59 999 (parseDate pf endDateStr)) rs initial_state))
         = filter (\<lambda>edge. in_window a (TimeClip (end_of_minute (localTZA pf b True) b))
                            (parseDate pf (createdAt (node edge))))
             (inspected (parseDate pf) (parseDate pf startDateStr)
                (setSeconds (localTZA pf) 59 999 (parseDate pf endDateStr)) rs initial_state)"
    by (simp add: assms(1,2) fetch_loop_inspected initial_state_def in_range_in_window
        setSeconds_end_of_minute [OF assms(3)])
  with inspected_prefix show ?thesis by blast
qed



lemma fetch_loop_no_next:
  "\<not> hasNextPage st \<Longrightarrow> fetch_loop parse s e rs st = Finished st"
  by (cases rs) simp_all

lemma fetch_loop_finishes:
  "\<exists>r\<in>set rs. closes r \<Longrightarrow> \<exists>st. fetch_loop parse s e rs st0 = Finished st"
proof (induction rs arbitrary: st0)
  case Nil
  then show ?case by simp
next
  case (Cons r rs)
  show ?case
  proof (cases "closes r")
    case True
    then show ?thesis
      by (auto simp: closes_def Let_def page_step_def fetch_loop_no_next split: option.splits)
  next
    case False
    with Cons.prems have "\<exists>r\<in>set rs. closes r" by simp
    from Cons.IH [OF this] show ?thesis
      by (auto simp: Let_def split: option.splits)
  qed
qed


lemma build_rows_Nil: "build_rows [] = ([], [])"
  by (simp add: build_rows_def)

lemma final_rows_Nil: "final_rows pf [] = []"
  by (simp add: final_rows_def build_rows_Nil group_rows_def)

lemma action_Some:
  "fetch_loop (parseDate pf) (parseDate pf s)
       (setSeconds (localTZA pf) 59 999 (parseDate pf e)) rs initial_state = Finished st
   \<Longrightarrow> action pf s e rs
       = Some \<lparr> rows = final_rows pf (allOrders st),
                  locationNames = snd (build_rows (allOrders st)),
                  timestamp = now pf, startDate = s, endDate = e \<rparr>"
  by (simp add: action_def Let_def)

lemma action_returns:
  assumes "\<exists>r\<in>set rs. closes r"
  shows "\<exists>rep. action pf s e rs = Some rep"
proof -
  from fetch_loop_finishes [OF assms] obtain st where
    "fetch_loop (parseDate pf) (parseDate pf s)
       (setSeconds (localTZA pf) 59 999 (parseDate pf e)) rs initial_state = Finished st"
    by blast
  from action_Some [OF this] show ?thesis by blast
qed


lemma in_range_invalid:
  "s = None \<or> e = None \<Longrightarrow> \<not> in_range parse s e edge"
  by (auto simp: in_range_def date_ge_def date_le_def Let_def split: option.splits)

lemma setSeconds_None: "setSeconds tza sec milli None = None"
  by (simp add: setSeconds_def)

text \<open>
  Claim C7, amended: when the start or the end string parses to an invalid date, the
  comparison of any order timestamp with that date is false (the comparison with the
  other date may be true), so the range test fails for every order and no order is
  matched; the action does not raise and does not report the invalid input: whenever
  it returns, the row list is empty, and it returns as soon as the remote ends the
  pagination.
\<close>

theorem C7_invalid_date_amended:
  assumes "parseDate pf startDateStr = None \<or> parseDate pf endDateStr = None"
  shows "(parseDate pf startDateStr = None \<longrightarrow>
            \<not> date_ge (parseDate pf created) (parseDate pf startDateStr)) \<and>
         (parseDate pf endDateStr = None \<longrightarrow>
            \<not> date_le (parseDate pf created)
                 (setSeconds (localTZA pf) 59 999 (parseDate pf endDateStr))) \<and>
         \<not> in_range (parseDate pf) (parseDate pf startDateStr)
             (setSeconds (localTZA pf) 59 999 (parseDate pf endDateStr)) edge \<and>
         allOrders (run_state (fetch_loop (parseDate pf) (parseDate pf startDateStr)
             (setSeconds (localTZA pf) 59 999 (parseDate pf endDateStr)) rs initial_state)) = [] \<and>
         (\<forall>rep. action pf startDateStr endDateStr rs = Some rep \<longrightarrow> rows rep = []) \<and>
         ((\<exists>r\<in>set rs. closes r) \<longrightarrow>
            action pf startDateStr endDateStr rs
              = Some \<lparr> rows = [], locationNames = [], timestamp = now pf,
                         startDate = startDateStr, endDate = endDateStr \<rparr>)"
proof -
  let ?P = "parseDate pf" and ?s = "parseDate pf startDateStr"
    and ?e = "setSeconds (localTZA pf) 59 999 (parseDate pf endDateStr)"
  have inv: "?s = None \<or> ?e = None"
    using assms by (auto simp: setSeconds_None)
  have a: "?s = None \<longrightarrow> \<not> date_ge (?P created) ?s"
    by (simp add: date_ge_def split: option.splits)
  have b: "parseDate pf endDateStr = None \<longrightarrow> \<not> date_le (?P created) ?e"
    by (simp add: date_le_def setSeconds_None split: option.splits)
  have c: "\<not> in_range ?P ?s ?e x" for x
    using in_range_invalid [OF inv] .
  then have "filter (in_range ?P ?s ?e) xs = []" for xs
    by simp
  then have d: "allOrders (run_state (fetch_loop ?P ?s ?e rs initial_state)) = []"
    by (simp add: fetch_loop_inspected initial_state_def)
  have e: "rows rep = [] \<and> locationNames rep = [] \<and> timestamp rep = now pf
      \<and> startDate rep = startDateStr \<and> endDate rep = endDateStr"
    if "action pf startDateStr endDateStr rs = Some rep" for rep
  proof (cases "fetch_loop ?P ?s ?e rs initial_state")
    case (Finished st)
    with d have "allOrders st = []" by simp
    with that action_Some [OF Finished] show ?thesis
      by (auto simp: final_rows_Nil build_rows_Nil)
  next
    case (Pending st)
    with that show ?thesis by (simp add: action_def Let_def)
  qed
  have f: "action pf startDateStr endDateStr rs
              = Some \<lparr> rows = [], locationNames = [], timestamp = now pf,
                         startDate = startDateStr, endDate = endDateStr \<rparr>"
    if "\<exists>r\<in>set rs. closes r"
  proof -
    from action_returns [OF that] obtain rep where
      r: "action pf startDateStr endDateStr rs = Some rep" by blast
    from e [OF r] have "rep = \<lparr> rows = [], locationNames = [], timestamp = now pf,
                         startDate = startDateStr, endDate = endDateStr \<rparr>"
      by simp
    with r show ?thesis by simp
  qed
  from a b c d e f show ?thesis by blast
qed

text \<open>
  Claim C8: the \<open>startDate\<close> and \<open>endDate\<close> fields of every report the action returns
  are the submitted strings themselves, so the adjustment of the parsed end date never
  shows in them; and the action returns a report whenever some reply ends the
  pagination.
\<close>

theorem C8_dates_echoed:
  "(\<forall>rep. action pf startDateStr endDateStr rs = Some rep \<longrightarrow>
       startDate rep = startDateStr \<and> endDate rep = endDateStr) \<and>
   ((\<exists>r\<in>set rs. closes r) \<longrightarrow> (\<exists>rep. action pf startDateStr endDateStr rs = Some rep))"
proof -
  have "startDate rep = startDateStr \<and> endDate rep = endDateStr"
    if "action pf startDateStr endDateStr rs = Some rep" for rep
    using that by (auto simp: action_def Let_def split: run.splits)
  then show ?thesis
    using action_returns [of rs pf startDateStr endDateStr] by blast
qed


lemma demo_run:
  "action demo_platform ''2024-01-01T00:00'' ''2024-01-01T23:59'' demo_replies = Some demo_report"
  by code_simp

text \<open>
  Claim C2, as the specification states it, for every fetched order and every pair of
  valid dates. First, a reply that reports errors and carries an order of 10:00 inside
  the window: the order has been fetched and is not matched, since the loop stops
  before it reads the reply's orders. Second, in New York an end of 06:30 UTC on the
  day daylight saving ends, which is 01:30 local time for the second time: the adjusted
  end is 05:30:59.999 UTC, the first 01:30 local, so the order of 06:00 UTC, which is
  before the end and inside the end's own minute bound, is not matched.
\<close>

theorem C2_range_filter_counterexample:
  "errors partial_error_reply \<and>
   reply_edges partial_error_reply = [demo_order1] \<and>
   parseDate demo_platform ''2024-01-01T00:00'' = Some 1704067200000 \<and>
   parseDate demo_platform ''2024-01-01T23:59'' = Some 1704153540000 \<and>
   in_window 1704067200000
     (setSeconds (localTZA demo_platform) 59 999 (parseDate demo_platform ''2024-01-01T23:59''))
     (parseDate demo_platform (createdAt (node demo_order1))) \<and>
   allOrders (run_state (fetch_loop (parseDate demo_platform)
       (parseDate demo_platform ''2024-01-01T00:00'')
       (setSeconds (localTZA demo_platform) 59 999 (parseDate demo_platform ''2024-01-01T23:59''))
       [partial_error_reply] initial_state)) = [] \<and>
   parseDate ny_platform ''2024-11-03T00:00Z'' = Some 1730592000000 \<and>
   parseDate ny_platform ''2024-11-03T06:30Z'' = Some 1730615400000 \<and>
   setSeconds (localTZA ny_platform) 59 999 (parseDate ny_platform ''2024-11-03T06:30Z'')
     = Some 1730611859999 \<and>
   reply_edges (mk_page [dst_order] False) = [dst_order] \<and>
   in_window 1730592000000
     (Some (end_of_minute (localTZA ny_platform 1730615400000 True) 1730615400000))
     (parseDate ny_platform (createdAt (node dst_order))) \<and>
   allOrders (run_state (fetch_loop (parseDate ny_platform)
       (parseDate ny_platform ''2024-11-03T00:00Z'')
       (setSeconds (localTZA ny_platform) 59 999 (parseDate ny_platform ''2024-11-03T06:30Z''))
       [mk_page [dst_order] False] initial_state)) = []"
  by (intro conjI; code_simp)

theorem C2_range_filter_witness:
  "parseDate demo_platform ''2024-01-01T00:00'' = Some 1704067200000 \<and>
   parseDate demo_platform ''2024-01-01T23:59'' = Some 1704153540000 \<and>
   same_offset (localTZA demo_platform) 1704153540000 \<and>
   allOrders (run_state (fetch_loop (parseDate demo_platform)
       (parseDate demo_platform ''2024-01-01T00:00'')
       (setSeconds (localTZA demo_platform) 59 999 (parseDate demo_platform ''2024-01-01T23:59''))
       demo_replies initial_state))
     = filter (\<lambda>edge. in_window 1704067200000
                 (TimeClip (end_of_minute (localTZA demo_platform 1704153540000 True)
                    1704153540000))
                 (parseDate demo_platform (createdAt (node edge))))
         (inspected (parseDate demo_platform) (parseDate demo_platform ''2024-01-01T00:00'')
           (setSeconds (localTZA demo_platform) 59 999
              (parseDate demo_platform ''2024-01-01T23:59''))
           demo_replies initial_state) \<and>
   inspected (parseDate demo_platform) (parseDate demo_platform ''2024-01-01T00:00'')
       (setSeconds (localTZA demo_platform) 59 999 (parseDate demo_platform ''2024-01-01T23:59''))
       demo_replies initial_state
     = [demo_order1, demo_order2, demo_order3] \<and>
   concat (map reply_edges (take 2 demo_replies)) = [demo_order1, demo_order2, demo_order3] \<and>
   allOrders (run_state (fetch_loop (parseDate demo_platform)
       (parseDate demo_platform ''2024-01-01T00:00'')
       (setSeconds (localTZA demo_platform) 59 999 (parseDate demo_platform ''2024-01-01T23:59''))
       demo_replies initial_state))
     = [demo_order1, demo_order3] \<and>
   TimeClip (end_of_minute (localTZA demo_platform 1704153540000 True) 1704153540000)
     = Some 1704153599999"
proof -
  have h1: "parseDate demo_platform ''2024-01-01T00:00'' = Some 1704067200000"
    by (simp add: demo_platform_def)
  have h2: "parseDate demo_platform ''2024-01-01T23:59'' = Some 1704153540000"
    by (simp add: demo_platform_def)
  have h3: "same_offset (localTZA demo_platform) 1704153540000"
    by (simp add: same_offset_def demo_platform_def)
  have i: "inspected (parseDate demo_platform) (parseDate demo_platform ''2024-01-01T00:00'')
       (setSeconds (localTZA demo_platform) 59 999 (parseDate demo_platform ''2024-01-01T23:59''))
       demo_replies initial_state
     = [demo_order1, demo_order2, demo_order3]"
    by code_simp
  have c: "concat (map reply_edges (take 2 demo_replies))
      = [demo_order1, demo_order2, demo_order3]"
    by code_simp
  have m: "allOrders (run_state (fetch_loop (parseDate demo_platform)
       (parseDate demo_platform ''2024-01-01T00:00'')
       (setSeconds (localTZA demo_platform) 59 999 (parseDate demo_platform ''2024-01-01T23:59''))
       demo_replies initial_state))
     = [demo_order1, demo_order3]"
    by code_simp
  have e: "TimeClip (end_of_minute (localTZA demo_platform 1704153540000 True) 1704153540000)
     = Some 1704153599999"
    by (simp add: demo_platform_def end_of_minute_def TimeClip_def)
  note t = C2_range_filter [OF h1 h2 h3, of demo_replies, THEN conjunct1]
  from h1 h2 h3 t i c m e show ?thesis
    by (intro conjI)
qed


text \<open>
  Claim C7, as the specification states it: when one of the two strings parses to an
  invalid date, both comparisons are false for every order with a real timestamp. With
  an invalid start and a valid end, the comparison of the order of 10:00 with the end
  of the window is true; only the comparison with the invalid date is false.
\<close>

theorem C7_invalid_date_counterexample:
  "parseDate demo_platform ''garbage'' = None \<and>
   parseDate demo_platform ''2024-01-01T10:00:00Z'' = Some 1704103200000 \<and>
   date_le (parseDate demo_platform ''2024-01-01T10:00:00Z'')
     (setSeconds (localTZA demo_platform) 59 999 (parseDate demo_platform ''2024-01-01T23:59''))"
  by (simp add: demo_window date_le_def) (simp add: demo_platform_def)

theorem C7_invalid_date_amended_witness:
  "(parseDate demo_platform ''garbage'' = None \<or>
      parseDate demo_platform ''2024-01-01T23:59'' = None) \<and>
   parseDate demo_platform ''garbage'' = None \<and>
   \<not> date_ge (parseDate demo_platform ''2024-01-01T10:00:00Z'')
        (parseDate demo_platform ''garbage'') \<and>
   \<not> date_le (parseDate demo_platform ''2024-01-01T10:00:00Z'')
        (setSeconds (localTZA demo_platform) 59 999 (parseDate demo_platform ''garbage'')) \<and>
   \<not> in_range (parseDate demo_platform) (parseDate demo_platform ''garbage'')
        (setSeconds (localTZA demo_platform) 59 999 (parseDate demo_platform ''2024-01-01T23:59''))
        demo_order1 \<and>
   allOrders (run_state (fetch_loop (parseDate demo_platform)
       (parseDate demo_platform ''garbage'')
       (setSeconds (localTZA demo_platform) 59 999 (parseDate demo_platform ''2024-01-01T23:59''))
       demo_replies initial_state)) = [] \<and>
   closes (mk_page [demo_order3] False) \<and>
   action demo_platform ''garbage'' ''2024-01-01T23:59'' demo_replies
     = Some \<lparr> rows = [], locationNames = [], timestamp = now demo_platform,
                startDate = ''garbage'', endDate = ''2024-01-01T23:59'' \<rparr> \<and>
   rows \<lparr> rows = [], locationNames = [], timestamp = now demo_platform,
          startDate = ''garbage'', endDate = ''2024-01-01T23:59'' \<rparr> = []"
proof -
  have g: "parseDate demo_platform ''garbage'' = None"
    by (simp add: demo_platform_def)
  then have h: "parseDate demo_platform ''garbage'' = None \<or>
      parseDate demo_platform ''2024-01-01T23:59'' = None"
    by simp
  have h': "parseDate demo_platform ''2024-01-01T00:00'' = None \<or>
      parseDate demo_platform ''garbage'' = None"
    using g by simp
  have c: "closes (mk_page [demo_order3] False)"
    by (simp add: closes_def mk_page_def)
  then have ex: "\<exists>r\<in>set demo_replies. closes r"
    by (simp add: demo_replies_def)
  note t = C7_invalid_date_amended [OF h, of "''2024-01-01T10:00:00Z''" demo_order1 demo_replies]
  note t' = C7_invalid_date_amended [OF h', of "''2024-01-01T10:00:00Z''" demo_order1
      demo_replies]
  from t g have 1: "\<not> date_ge (parseDate demo_platform ''2024-01-01T10:00:00Z'')
        (parseDate demo_platform ''garbage'')"
    by blast
  from t' g have 2: "\<not> date_le (parseDate demo_platform ''2024-01-01T10:00:00Z'')
        (setSeconds (localTZA demo_platform) 59 999 (parseDate demo_platform ''garbage''))"
    by blast
  from t ex have 3: "action demo_platform ''garbage'' ''2024-01-01T23:59'' demo_replies
     = Some \<lparr> rows = [], locationNames = [], timestamp = now demo_platform,
                startDate = ''garbage'', endDate = ''2024-01-01T23:59'' \<rparr>"
    by blast
  with t have 4: "rows \<lparr> rows = [], locationNames = [], timestamp = now demo_platform,
          startDate = ''garbage'', endDate = ''2024-01-01T23:59'' \<rparr> = []"
    by blast
  from h g 1 2 t c 3 4 show ?thesis by blast
qed

theorem C8_dates_echoed_witness:
  "action demo_platform ''2024-01-01T00:00'' ''2024-01-01T23:59'' demo_replies = Some demo_report \<and>
   startDate demo_report = ''2024-01-01T00:00'' \<and>
   endDate demo_report = ''2024-01-01T23:59'' \<and>
   closes (mk_page [demo_order3] False) \<and>
   (\<exists>rep. action demo_platform ''2024-01-01T00:00'' ''2024-01-01T23:59'' demo_replies = Some rep) \<and>
   setSeconds (localTZA demo_platform) 59 999 (parseDate demo_platform ''2024-01-01T23:59'')
     = Some 1704153599999"
proof -
  have c: "closes (mk_page [demo_order3] False)"
    by (simp add: closes_def mk_page_def)
  then have ex: "\<exists>r\<in>set demo_replies. closes r"
    by (simp add: demo_replies_def)
  note t = C8_dates_echoed [of demo_platform "''2024-01-01T00:00''" "''2024-01-01T23:59''"
      demo_replies]
  from t demo_run have 1: "startDate demo_report = ''2024-01-01T00:00'' \<and>
      endDate demo_report = ''2024-01-01T23:59''"
    by blast
  from t ex have 2: "\<exists>rep. action demo_platform ''2024-01-01T00:00'' ''2024-01-01T23:59''
      demo_replies = Some rep"
    by blast
  from demo_run 1 c 2 demo_window(2) show ?thesis by blast
qed

subsection \<open>The flattener\<close>

lemma keys_update: "set (map fst (AList.update k v obj)) = insert k (set (map fst obj))"
  using dom_update [of k v obj] by simp

lemma own_keys_ok_assign: "own_keys_ok obj \<Longrightarrow> own_keys_ok (assign k v obj)"
  unfolding own_keys_ok_def assign_def
  by (simp add: distinct_update keys_update del: set_map)

lemma own_keys_ok_Nil: "own_keys_ok []"
  by (simp add: own_keys_ok_def)

lemma snd_level_step: "snd (level_step acc l) = assign (level_key (node l)) (level_value (node l)) (snd acc)"
  by (simp add: level_step_def Let_def)

lemma fst_level_step: "fst (level_step acc l) = set_add (level_key (node l)) (fst acc)"
  by (simp add: level_step_def Let_def)

lemma snd_levels_names:
  "snd (foldl level_step (names, obj) ls) = snd (foldl level_step (names', obj) ls)"
proof (induction ls arbitrary: names names' obj)
  case Nil
  then show ?case by simp
next
  case (Cons l ls)
  have "level_step (names, obj) l
      = (set_add (level_key (node l)) names, assign (level_key (node l)) (level_value (node l)) obj)"
    by (simp add: level_step_def Let_def)
  moreover have "level_step (names', obj) l
      = (set_add (level_key (node l)) names', assign (level_key (node l)) (level_value (node l)) obj)"
    by (simp add: level_step_def Let_def)
  ultimately show ?case using Cons.IH by simp
qed

lemma own_keys_ok_levels:
  "own_keys_ok (snd acc) \<Longrightarrow> own_keys_ok (snd (foldl level_step acc ls))"
  by (induction ls arbitrary: acc) (simp_all add: snd_level_step own_keys_ok_assign)

lemma set_set_add: "set (set_add x xs) = insert x (set xs)"
  by (auto simp: set_add_def)

lemma distinct_set_add: "distinct xs \<Longrightarrow> distinct (set_add x xs)"
  by (simp add: set_add_def)

lemma names_levels:
  "set (fst (foldl level_step acc ls)) = set (fst acc) \<union> (\<lambda>l. level_key (node l)) ` set ls"
  by (induction ls arbitrary: acc) (auto simp: fst_level_step set_set_add)

lemma own_keys_ok_locData_of: "own_keys_ok (locData_of li)"
  by (simp add: locData_of_def own_keys_ok_levels own_keys_ok_Nil)

lemma fst_item_step: "fst (item_step acc li) = fst acc @ [row_of li]"
  unfolding item_step_def row_of_def locData_of_def Let_def
  using snd_levels_names [of "snd acc" "[]" _ "[]"] by simp

lemma snd_item_step:
  "set (snd (item_step acc li))
     = set (snd acc) \<union> (\<lambda>l. level_key (node l)) ` set (levels_of (variant (node li)))"
  by (simp add: item_step_def Let_def names_levels)

lemma fst_items: "fst (foldl item_step acc lis) = fst acc @ map row_of lis"
  by (induction lis arbitrary: acc) (simp_all add: fst_item_step)

lemma snd_items:
  "set (snd (foldl item_step acc lis))
     = set (snd acc) \<union> (\<Union>li\<in>set lis. (\<lambda>l. level_key (node l)) ` set (levels_of (variant (node li))))"
  by (induction lis arbitrary: acc) (auto simp: snd_item_step)

lemma fst_orders:
  "fst (foldl order_step acc os) = fst acc @ map row_of (items_of os)"
  by (induction os arbitrary: acc) (simp_all add: order_step_def fst_items items_of_def)

lemma snd_orders:
  "set (snd (foldl order_step acc os))
     = set (snd acc) \<union> (\<Union>li\<in>set (items_of os).
          (\<lambda>l. level_key (node l)) ` set (levels_of (variant (node li))))"
  by (induction os arbitrary: acc) (auto simp: order_step_def snd_items items_of_def)

lemma rows_build_rows: "fst (build_rows matched) = map row_of (items_of matched)"
  by (simp add: build_rows_def fst_orders)

lemma names_build_rows:
  "set (snd (build_rows matched))
     = (\<Union>li\<in>set (items_of matched).
          (\<lambda>l. level_key (node l)) ` set (levels_of (variant (node li))))"
  by (simp add: build_rows_def snd_orders)

lemma or_default_None: "or_default None d = d"
  by (simp add: or_default_def)

lemma row_of_simps:
  "productTitle (row_of li) = or_default (Option.bind (product (node li)) p_title) ''N/A''"
  "productVariantTitle (row_of li) = or_default (Option.bind (variant (node li)) v_title) ''N/A''"
  "sku (row_of li) = or_default (Option.bind (variant (node li)) v_sku) ''N/A''"
  "vendor (row_of li) = or_default (Option.bind (product (node li)) p_vendor) ''N/A''"
  "productType (row_of li) = or_default (Option.bind (product (node li)) p_productType) ''N/A''"
  "netItemsSold (row_of li) = quantity (node li)"
  "locations (row_of li) = locData_of li"
  by (simp_all add: row_of_def make_row_def)

lemma rows_ok_build_rows:
  "r \<in> set (fst (build_rows matched)) \<Longrightarrow> own_keys_ok (locations r)"
  by (auto simp: rows_build_rows row_of_simps own_keys_ok_locData_of)

subsection \<open>Grouping\<close>

lemma map_of_group_step:
  "map_of (group_step grouped r) k =
     (if k = row_key r
      then Some (add_row (case map_of grouped k of None \<Rightarrow> new_group r | Some g \<Rightarrow> g) r)
      else map_of grouped k)"
  by (simp add: group_step_def Let_def update_conv')

lemma keys_group_step:
  "set (map fst (group_step grouped r)) = insert (row_key r) (set (map fst grouped))"
  by (simp add: group_step_def Let_def keys_update del: set_map)

lemma distinct_group_step:
  "distinct (map fst grouped) \<Longrightarrow> distinct (map fst (group_step grouped r))"
  by (simp add: group_step_def Let_def distinct_update)

lemma group_rows_snoc: "group_rows (rs @ [r]) = group_step (group_rows rs) r"
  by (simp add: group_rows_def)

lemma group_rows_Nil: "group_rows [] = []"
  by (simp add: group_rows_def)

lemma distinct_group_rows: "distinct (map fst (group_rows rs))"
  by (induction rs rule: rev_induct)
     (simp_all add: group_rows_Nil group_rows_snoc distinct_group_step)

lemma keys_group_rows: "set (map fst (group_rows rs)) = row_key ` set rs"
  by (induction rs rule: rev_induct)
     (simp_all add: group_rows_Nil group_rows_snoc keys_group_step del: set_map)

lemma find_snoc:
  "List.find P (xs @ [x])
     = (case List.find P xs of None \<Rightarrow> if P x then Some x else None | Some y \<Rightarrow> Some y)"
  by (induction xs) simp_all

text \<open>The identity of a group: the fields copied when the group is opened.\<close>

lemma add_row_fields:
  "productTitle (add_row g r) = productTitle g"
  "productVariantTitle (add_row g r) = productVariantTitle g"
  "sku (add_row g r) = sku g"
  "vendor (add_row g r) = vendor g"
  "productType (add_row g r) = productType g"
  "netItemsSold (add_row g r) = netItemsSold g + netItemsSold r"
  by (simp_all add: add_row_def)

lemma new_group_fields:
  "productTitle (new_group r) = productTitle r"
  "productVariantTitle (new_group r) = productVariantTitle r"
  "sku (new_group r) = sku r"
  "vendor (new_group r) = vendor r"
  "productType (new_group r) = productType r"
  "netItemsSold (new_group r) = 0"
  "locations (new_group r) = []"
  by (simp_all add: new_group_def)

lemma map_of_group_rows_None:
  "map_of (group_rows rs) k = None \<longleftrightarrow> List.find (\<lambda>r. row_key r = k) rs = None"
proof -
  have "map_of (group_rows rs) k = None \<longleftrightarrow> k \<notin> set (map fst (group_rows rs))"
    by (simp add: map_of_eq_None_iff)
  then show ?thesis
    by (auto simp: keys_group_rows find_None_iff simp del: set_map)
qed

lemma group_first_row:
  "map_of (group_rows rs) k = Some g \<Longrightarrow>
   \<exists>r0. List.find (\<lambda>r. row_key r = k) rs = Some r0 \<and>
        productTitle g = productTitle r0 \<and> productVariantTitle g = productVariantTitle r0 \<and>
        sku g = sku r0 \<and> vendor g = vendor r0 \<and> productType g = productType r0"
proof (induction rs arbitrary: g rule: rev_induct)
  case Nil
  then show ?case by (simp add: group_rows_Nil)
next
  case (snoc r rs)
  show ?case
  proof (cases "k = row_key r")
    case False
    with snoc.prems have "map_of (group_rows rs) k = Some g"
      by (simp add: group_rows_snoc map_of_group_step)
    from snoc.IH [OF this] False show ?thesis
      by (auto simp: find_snoc)
  next
    case True
    show ?thesis
    proof (cases "map_of (group_rows rs) k")
      case None
      then have "List.find (\<lambda>r. row_key r = k) rs = None"
        by (simp add: map_of_group_rows_None)
      moreover from snoc.prems True None have "g = add_row (new_group r) r"
        by (simp add: group_rows_snoc map_of_group_step)
      ultimately show ?thesis using True
        by (simp add: find_snoc add_row_fields new_group_fields)
    next
      case (Some g')
      with snoc.prems True have "g = add_row g' r"
        by (simp add: group_rows_snoc map_of_group_step)
      with snoc.IH [OF Some] show ?thesis
        by (auto simp: find_snoc add_row_fields)
    qed
  qed
qed

lemma group_quantity:
  "map_of (group_rows rs) k = Some g \<Longrightarrow>
   netItemsSold g = sum_list (map netItemsSold (rows_of_key k rs))"
proof (induction rs arbitrary: g rule: rev_induct)
  case Nil
  then show ?case by (simp add: group_rows_Nil)
next
  case (snoc r rs)
  show ?case
  proof (cases "k = row_key r")
    case False
    with snoc.prems have "map_of (group_rows rs) k = Some g"
      by (simp add: group_rows_snoc map_of_group_step)
    from snoc.IH [OF this] False show ?thesis
      by (auto simp: rows_of_key_def)
  next
    case True
    show ?thesis
    proof (cases "map_of (group_rows rs) k")
      case None
      then have "List.find (\<lambda>r. row_key r = k) rs = None"
        by (simp add: map_of_group_rows_None)
      then have "rows_of_key k rs = []"
        by (auto simp: rows_of_key_def find_None_iff filter_empty_conv)
      moreover from snoc.prems True None have "g = add_row (new_group r) r"
        by (simp add: group_rows_snoc map_of_group_step)
      ultimately show ?thesis using True
        by (simp add: rows_of_key_def add_row_fields new_group_fields)
    next
      case (Some g')
      with snoc.prems True have "g = add_row g' r"
        by (simp add: group_rows_snoc map_of_group_step)
      with snoc.IH [OF Some] True show ?thesis
        by (simp add: rows_of_key_def add_row_fields)
    qed
  qed
qed

lemma map_of_assign_own:
  "k \<noteq> ''__proto__'' \<Longrightarrow> map_of (assign k v obj) = (map_of obj)(k \<mapsto> v)"
  by (simp add: assign_def update_conv')

lemma map_of_assign_all:
  "own_keys_ok kvs \<Longrightarrow>
   map_of (foldl (\<lambda>ls kv. assign (fst kv) (snd kv) ls) obj kvs) = map_of obj ++ map_of kvs"
proof (induction kvs arbitrary: obj)
  case Nil
  then show ?case by simp
next
  case (Cons kv kvs)
  from Cons.prems have ok: "own_keys_ok kvs" and k: "fst kv \<noteq> ''__proto__''"
    and fresh: "fst kv \<notin> set (map fst kvs)"
    by (auto simp: own_keys_ok_def)
  have "map_of (foldl (\<lambda>ls kv. assign (fst kv) (snd kv) ls) obj (kv # kvs))
      = map_of (assign (fst kv) (snd kv) obj) ++ map_of kvs"
    using Cons.IH [OF ok, of "assign (fst kv) (snd kv) obj"] by (simp only: foldl_Cons)
  also have "\<dots> = (map_of obj)(fst kv \<mapsto> snd kv) ++ map_of kvs"
    by (simp only: map_of_assign_own [OF k])
  also have "\<dots> = map_of obj ++ map_of (kv # kvs)"
  proof -
    have "map_of kvs (fst kv) = None"
      using fresh by (simp add: map_of_eq_None_iff)
    then have "fst kv \<notin> dom (map_of kvs)"
      by (simp add: domIff)
    then have "(map_of obj)(fst kv \<mapsto> snd kv) ++ map_of kvs
        = (map_of obj ++ map_of kvs)(fst kv \<mapsto> snd kv)"
      by (rule map_add_upd_left)
    then show ?thesis
      by (cases kv) simp
  qed
  finally show ?case .
qed

lemma overwrite_merge_snoc:
  "overwrite_merge (rs @ [r]) = overwrite_merge rs ++ map_of (locations r)"
  by (simp add: overwrite_merge_def)

lemma overwrite_merge_Nil: "overwrite_merge [] = Map.empty"
  by (simp add: overwrite_merge_def)

lemma locations_add_row:
  "own_keys_ok (locations r) \<Longrightarrow>
   map_of (locations (add_row g r)) = map_of (locations g) ++ map_of (locations r)"
  by (simp add: add_row_def map_of_assign_all)

lemma group_locations:
  "\<forall>r\<in>set rs. own_keys_ok (locations r) \<Longrightarrow> map_of (group_rows rs) k = Some g \<Longrightarrow>
   map_of (locations g) = overwrite_merge (rows_of_key k rs)"
proof (induction rs arbitrary: g rule: rev_induct)
  case Nil
  then show ?case by (simp add: group_rows_Nil)
next
  case (snoc r rs)
  from snoc.prems(1) have oks: "\<forall>r\<in>set rs. own_keys_ok (locations r)"
    and ok: "own_keys_ok (locations r)"
    by simp_all
  show ?case
  proof (cases "k = row_key r")
    case False
    with snoc.prems have "map_of (group_rows rs) k = Some g"
      by (simp add: group_rows_snoc map_of_group_step)
    from snoc.IH [OF oks this] False show ?thesis
      by (auto simp: rows_of_key_def)
  next
    case True
    show ?thesis
    proof (cases "map_of (group_rows rs) k")
      case None
      then have "List.find (\<lambda>r. row_key r = k) rs = None"
        by (simp add: map_of_group_rows_None)
      then have "rows_of_key k rs = []"
        by (auto simp: rows_of_key_def find_None_iff filter_empty_conv)
      moreover from snoc.prems True None have "g = add_row (new_group r) r"
        by (simp add: group_rows_snoc map_of_group_step)
      ultimately show ?thesis using True ok
        by (simp add: rows_of_key_def locations_add_row new_group_fields overwrite_merge_def)
    next
      case (Some g')
      with snoc.prems True have "g = add_row g' r"
        by (simp add: group_rows_snoc map_of_group_step)
      with snoc.IH [OF oks Some] True ok show ?thesis
        by (simp add: rows_of_key_def locations_add_row overwrite_merge_def)
    qed
  qed
qed

subsection \<open>Sorting and the final rows\<close>

lemma set_insert_by: "set (insert_by cmp x xs) = insert x (set xs)"
  by (induction xs) auto

lemma set_sort_by: "set (sort_by cmp xs) = set xs"
  by (induction xs) (simp_all add: set_insert_by)

lemma length_filter_insert_by:
  "length (filter P (insert_by cmp x xs)) = length (filter P (x # xs))"
  by (induction xs) auto

lemma length_filter_sort_by:
  "length (filter P (sort_by cmp xs)) = length (filter P xs)"
  by (induction xs) (simp_all add: length_filter_insert_by)

lemma insert_by_not_Nil: "insert_by cmp x xs \<noteq> []"
  by (cases xs) simp_all

lemma hd_insert_by:
  "hd (insert_by cmp x xs) = x \<or> (xs \<noteq> [] \<and> \<not> cmp x (hd xs) \<le> 0 \<and> hd (insert_by cmp x xs) = hd xs)"
  by (cases xs) simp_all

lemma successively_insert_by:
  assumes total: "\<And>a b. cmp a b \<le> 0 \<or> cmp b a \<le> 0"
  shows "successively (\<lambda>a b. cmp a b \<le> 0) xs
     \<Longrightarrow> successively (\<lambda>a b. cmp a b \<le> (0::int)) (insert_by cmp x xs)"
proof (induction xs)
  case Nil
  then show ?case by simp
next
  case (Cons y ys)
  show ?case
  proof (cases "cmp x y \<le> 0")
    case True
    with Cons.prems show ?thesis by simp
  next
    case False
    with total [of x y] have yx: "cmp y x \<le> 0" by simp
    from Cons.prems have tl: "successively (\<lambda>a b. cmp a b \<le> 0) ys"
      and hd: "ys = [] \<or> cmp y (hd ys) \<le> 0"
      by (auto simp: successively_Cons)
    from Cons.IH [OF tl] have ih: "successively (\<lambda>a b. cmp a b \<le> 0) (insert_by cmp x ys)" .
    have "cmp y (hd (insert_by cmp x ys)) \<le> 0"
      using hd_insert_by [of cmp x ys] yx hd by auto
    with ih False show ?thesis
      by (simp add: successively_Cons)
  qed
qed

lemma successively_sort_by:
  assumes total: "\<And>a b. cmp a b \<le> 0 \<or> cmp b a \<le> 0"
  shows "successively (\<lambda>a b. cmp a b \<le> (0::int)) (sort_by cmp xs)"
  by (induction xs) (simp_all add: successively_insert_by [OF total])

lemma values_of_distinct:
  "distinct (map fst al) \<Longrightarrow> g \<in> set (map snd al) \<longleftrightarrow> (\<exists>k. map_of al k = Some g)"
  by (force simp: map_of_eq_Some_iff image_iff)

lemma final_rows_groups:
  "g \<in> set (final_rows pf matched)
     \<longleftrightarrow> (\<exists>k. map_of (group_rows (fst (build_rows matched))) k = Some g)"
  unfolding final_rows_def set_sort_by
  by (rule values_of_distinct) (rule distinct_group_rows)

lemma row_key_cong:
  "productTitle a = productTitle b \<Longrightarrow> productVariantTitle a = productVariantTitle b
     \<Longrightarrow> sku a = sku b \<Longrightarrow> row_key a = row_key b"
  by (simp add: row_key_def)

lemma row_key_triple: "triple a = triple b \<Longrightarrow> row_key a = row_key b"
  by (simp add: triple_def row_key_def)

lemma find_SomeD: "List.find P xs = Some x \<Longrightarrow> P x \<and> x \<in> set xs"
  by (auto simp: find_Some_iff)

lemma group_key:
  assumes "map_of (group_rows rs) k = Some g"
  shows "row_key g = k"
proof -
  from group_first_row [OF assms] obtain r0 where
    f: "List.find (\<lambda>r. row_key r = k) rs = Some r0"
    and "productTitle g = productTitle r0" "productVariantTitle g = productVariantTitle r0"
      "sku g = sku r0"
    by blast
  then have "row_key g = row_key r0" by (intro row_key_cong)
  with find_SomeD [OF f] show ?thesis by simp
qed

lemma length_filter_key:
  "distinct (map fst al) \<Longrightarrow> k \<in> set (map fst al)
     \<Longrightarrow> length (filter (\<lambda>kv. fst kv = k) al) = 1"
proof (induction al)
  case Nil
  then show ?case by simp
next
  case (Cons kv al)
  show ?case
  proof (cases "fst kv = k")
    case True
    with Cons.prems have "k \<notin> fst ` set al" by auto
    then have "filter (\<lambda>kv. fst kv = k) al = []"
      by (auto simp: filter_empty_conv)
    with True show ?thesis by simp
  next
    case False
    with Cons show ?thesis by auto
  qed
qed

lemma one_group_per_key:
  assumes "k \<in> row_key ` set rs"
  shows "length (filter (\<lambda>g. row_key g = k) (map snd (group_rows rs))) = 1"
proof -
  have "row_key (snd kv) = fst kv" if "kv \<in> set (group_rows rs)" for kv
  proof -
    from that have "map_of (group_rows rs) (fst kv) = Some (snd kv)"
      using distinct_group_rows [of rs] by (simp add: map_of_eq_Some_iff)
    then show ?thesis by (rule group_key)
  qed
  then have "filter (\<lambda>kv. row_key (snd kv) = k) (group_rows rs)
      = filter (\<lambda>kv. fst kv = k) (group_rows rs)"
    by (intro filter_cong) simp_all
  moreover have "filter (\<lambda>g. row_key g = k) (map snd (group_rows rs))
      = map snd (filter (\<lambda>kv. row_key (snd kv) = k) (group_rows rs))"
    by (simp add: filter_map comp_def)
  moreover have "length (filter (\<lambda>kv. fst kv = k) (group_rows rs)) = 1"
    using assms by (intro length_filter_key distinct_group_rows) (simp add: keys_group_rows del: set_map)
  ultimately show ?thesis by simp
qed

lemma final_one_group_per_key:
  assumes "k \<in> row_key ` set (fst (build_rows matched))"
  shows "length (filter (\<lambda>g. row_key g = k) (final_rows pf matched)) = 1"
  unfolding final_rows_def length_filter_sort_by
  using assms by (rule one_group_per_key)

lemma find_stronger:
  "List.find P xs = Some x \<Longrightarrow> Q x \<Longrightarrow> (\<And>y. Q y \<Longrightarrow> P y) \<Longrightarrow> List.find Q xs = Some x"
proof (induction xs)
  case Nil
  then show ?case by simp
next
  case (Cons y ys)
  then show ?case by (cases "P y") auto
qed

subsection \<open>The rows of the report\<close>

lemma group_of_final:
  assumes "g \<in> set (final_rows pf matched)"
  obtains r0 where "List.find (\<lambda>r. row_key r = row_key g) (fst (build_rows matched)) = Some r0"
    and "triple g = triple r0" and "vendor g = vendor r0" and "productType g = productType r0"
    and "netItemsSold g
           = sum_list (map netItemsSold (rows_of_key (row_key g) (fst (build_rows matched))))"
    and "map_of (locations g) = overwrite_merge (rows_of_key (row_key g) (fst (build_rows matched)))"
proof -
  let ?rows = "fst (build_rows matched)"
  from assms obtain k where k: "map_of (group_rows ?rows) k = Some g"
    by (auto simp: final_rows_groups)
  have key: "row_key g = k"
    using k by (rule group_key)
  from group_first_row [OF k] obtain r0 where
    f: "List.find (\<lambda>r. row_key r = k) ?rows = Some r0"
    and t: "productTitle g = productTitle r0" "productVariantTitle g = productVariantTitle r0"
      "sku g = sku r0"
    and v: "vendor g = vendor r0" "productType g = productType r0"
    by blast
  have q: "netItemsSold g = sum_list (map netItemsSold (rows_of_key k ?rows))"
    using k by (rule group_quantity)
  have "\<forall>r\<in>set ?rows. own_keys_ok (locations r)"
    by (simp add: rows_ok_build_rows)
  then have l: "map_of (locations g) = overwrite_merge (rows_of_key k ?rows)"
    using k by (rule group_locations)
  from f t v q l key that show ?thesis
    by (simp add: triple_def)
qed

lemma nth_build_rows:
  "i < length (items_of matched) \<Longrightarrow> fst (build_rows matched) ! i = row_of (items_of matched ! i)"
  by (simp add: rows_build_rows)

lemma one_group_of_row:
  assumes "r \<in> set (fst (build_rows matched))"
  shows "\<exists>g. filter (\<lambda>g. row_key g = row_key r) (final_rows pf matched) = [g] \<and>
             netItemsSold g
               = sum_list (map netItemsSold (rows_of_key (row_key r) (fst (build_rows matched))))"
proof -
  let ?gs = "filter (\<lambda>g. row_key g = row_key r) (final_rows pf matched)"
  have "length ?gs = 1"
  proof (rule final_one_group_per_key)
    from assms show "row_key r \<in> row_key ` set (fst (build_rows matched))" by (rule imageI)
  qed
  then obtain g where g: "?gs = [g]"
    by (cases ?gs) simp_all
  then have "g \<in> set ?gs"
    by (simp only: list.set_intros)
  then have mem: "g \<in> set (final_rows pf matched)" and key: "row_key g = row_key r"
    by simp_all
  from group_of_final [OF mem] have
    "netItemsSold g = sum_list (map netItemsSold (rows_of_key (row_key g) (fst (build_rows matched))))"
    by blast
  then have "netItemsSold g
      = sum_list (map netItemsSold (rows_of_key (row_key r) (fst (build_rows matched))))"
    by (simp only: key)
  with g show ?thesis by blast
qed

text \<open>
  Claim C4: the flattener emits exactly one row for each line item of the matched
  orders, in order; a product title, variant title, SKU, vendor or product type that
  is absent is the string \<open>N/A\<close> in the row. So two line items that both lack SKU and
  variant title give rows with \<open>N/A\<close> in both fields, and when their product titles
  coincide, the rows have one key and the output has exactly one aggregate row for it,
  which sums all the rows of that key.
\<close>

theorem C4_flat_rows:
  "length (fst (build_rows matched)) = length (items_of matched) \<and>
   (\<forall>i<length (items_of matched).
      (Option.bind (product (node (items_of matched ! i))) p_title = None
         \<longrightarrow> productTitle (fst (build_rows matched) ! i) = ''N/A'') \<and>
      (Option.bind (variant (node (items_of matched ! i))) v_title = None
         \<longrightarrow> productVariantTitle (fst (build_rows matched) ! i) = ''N/A'') \<and>
      (Option.bind (variant (node (items_of matched ! i))) v_sku = None
         \<longrightarrow> sku (fst (build_rows matched) ! i) = ''N/A'') \<and>
      (Option.bind (product (node (items_of matched ! i))) p_vendor = None
         \<longrightarrow> vendor (fst (build_rows matched) ! i) = ''N/A'') \<and>
      (Option.bind (product (node (items_of matched ! i))) p_productType = None
         \<longrightarrow> productType (fst (build_rows matched) ! i) = ''N/A'') \<and>
      netItemsSold (fst (build_rows matched) ! i) = quantity (node (items_of matched ! i))) \<and>
   (\<forall>i<length (items_of matched). \<forall>j<length (items_of matched).
      Option.bind (variant (node (items_of matched ! i))) v_sku = None \<and>
      Option.bind (variant (node (items_of matched ! i))) v_title = None \<and>
      Option.bind (variant (node (items_of matched ! j))) v_sku = None \<and>
      Option.bind (variant (node (items_of matched ! j))) v_title = None \<and>
      productTitle (fst (build_rows matched) ! i) = productTitle (fst (build_rows matched) ! j)
      \<longrightarrow> sku (fst (build_rows matched) ! i) = ''N/A'' \<and>
          productVariantTitle (fst (build_rows matched) ! i) = ''N/A'' \<and>
          sku (fst (build_rows matched) ! j) = ''N/A'' \<and>
          productVariantTitle (fst (build_rows matched) ! j) = ''N/A'' \<and>
          row_key (fst (build_rows matched) ! i) = row_key (fst (build_rows matched) ! j) \<and>
          (\<exists>g. filter (\<lambda>g. row_key g = row_key (fst (build_rows matched) ! i))
                  (final_rows pf matched) = [g] \<and>
               netItemsSold g
                 = sum_list (map netItemsSold
                     (rows_of_key (row_key (fst (build_rows matched) ! i))
                        (fst (build_rows matched))))))"
proof (intro conjI allI impI)
  show len: "length (fst (build_rows matched)) = length (items_of matched)"
    by (simp add: rows_build_rows)
  {
    fix i
    assume i: "i < length (items_of matched)"
    note nth = nth_build_rows [OF i]
    show "productTitle (fst (build_rows matched) ! i) = ''N/A''"
      if "Option.bind (product (node (items_of matched ! i))) p_title = None"
      using that by (simp add: nth row_of_simps or_default_None)
    show "productVariantTitle (fst (build_rows matched) ! i) = ''N/A''"
      if "Option.bind (variant (node (items_of matched ! i))) v_title = None"
      using that by (simp add: nth row_of_simps or_default_None)
    show "sku (fst (build_rows matched) ! i) = ''N/A''"
      if "Option.bind (variant (node (items_of matched ! i))) v_sku = None"
      using that by (simp add: nth row_of_simps or_default_None)
    show "vendor (fst (build_rows matched) ! i) = ''N/A''"
      if "Option.bind (product (node (items_of matched ! i))) p_vendor = None"
      using that by (simp add: nth row_of_simps or_default_None)
    show "productType (fst (build_rows matched) ! i) = ''N/A''"
      if "Option.bind (product (node (items_of matched ! i))) p_productType = None"
      using that by (simp add: nth row_of_simps or_default_None)
    show "netItemsSold (fst (build_rows matched) ! i) = quantity (node (items_of matched ! i))"
      by (simp add: nth row_of_simps)
  }
  fix i j
  assume i: "i < length (items_of matched)" and j: "j < length (items_of matched)"
    and h: "Option.bind (variant (node (items_of matched ! i))) v_sku = None \<and>
      Option.bind (variant (node (items_of matched ! i))) v_title = None \<and>
      Option.bind (variant (node (items_of matched ! j))) v_sku = None \<and>
      Option.bind (variant (node (items_of matched ! j))) v_title = None \<and>
      productTitle (fst (build_rows matched) ! i) = productTitle (fst (build_rows matched) ! j)"
  show si: "sku (fst (build_rows matched) ! i) = ''N/A''"
    using h by (simp add: nth_build_rows [OF i] row_of_simps or_default_None)
  show vi: "productVariantTitle (fst (build_rows matched) ! i) = ''N/A''"
    using h by (simp add: nth_build_rows [OF i] row_of_simps or_default_None)
  show sj: "sku (fst (build_rows matched) ! j) = ''N/A''"
    using h by (simp add: nth_build_rows [OF j] row_of_simps or_default_None)
  show vj: "productVariantTitle (fst (build_rows matched) ! j) = ''N/A''"
    using h by (simp add: nth_build_rows [OF j] row_of_simps or_default_None)
  from h have t: "productTitle (fst (build_rows matched) ! i)
      = productTitle (fst (build_rows matched) ! j)"
    by blast
  show "row_key (fst (build_rows matched) ! i) = row_key (fst (build_rows matched) ! j)"
    using t by (rule row_key_cong) (simp_all only: si vi sj vj)
  have "fst (build_rows matched) ! i \<in> set (fst (build_rows matched))"
    using i len by simp
  then show "\<exists>g. filter (\<lambda>g. row_key g = row_key (fst (build_rows matched) ! i))
                  (final_rows pf matched) = [g] \<and>
               netItemsSold g
                 = sum_list (map netItemsSold
                     (rows_of_key (row_key (fst (build_rows matched) ! i))
                        (fst (build_rows matched))))"
    by (rule one_group_of_row)
qed


text \<open>
  Claim C5: the rows of the output are sorted by SKU under the locale's comparison:
  each row's SKU compares less than or equal to the SKU of the row after it. The
  comparison is a parameter; what is used of it is that of any two strings one
  compares less than or equal to the other, as ECMAScript requires of
  \<open>localeCompare\<close>.
\<close>

theorem C5_sorted_by_sku:
  assumes "\<forall>a b. localeCompare pf a b \<le> 0 \<or> localeCompare pf b a \<le> 0"
  shows "successively (\<lambda>x y. localeCompare pf (sku x) (sku y) \<le> 0) (final_rows pf matched) \<and>
         (\<forall>rep. action pf startDateStr endDateStr rs = Some rep \<longrightarrow>
            successively (\<lambda>x y. localeCompare pf (sku x) (sku y) \<le> 0) (rows rep))"
proof -
  have s: "successively (\<lambda>x y. localeCompare pf (sku x) (sku y) \<le> 0) (final_rows pf m)" for m
    unfolding final_rows_def
    by (rule successively_sort_by) (use assms in blast)
  have "successively (\<lambda>x y. localeCompare pf (sku x) (sku y) \<le> 0) (rows rep)"
    if "action pf startDateStr endDateStr rs = Some rep" for rep
    using that s by (auto simp: action_def Let_def split: run.splits)
  with s show ?thesis by blast
qed

text \<open>
  Claim C10: the vendor and the product type of every aggregate row of the output are
  those of the first flattened row, in production order, that has the aggregate row's
  product title, variant title and SKU; what later rows of the group carry in these
  fields is not used.
\<close>

theorem C10_first_row_wins:
  assumes "g \<in> set (final_rows pf matched)"
  shows "\<exists>r0. List.find (\<lambda>r. triple r = triple g) (fst (build_rows matched)) = Some r0 \<and>
              vendor g = vendor r0 \<and> productType g = productType r0"
proof -
  from group_of_final [OF assms] obtain r0 where
    f: "List.find (\<lambda>r. row_key r = row_key g) (fst (build_rows matched)) = Some r0"
    and t: "triple g = triple r0" and v: "vendor g = vendor r0" "productType g = productType r0"
    by blast
  have "List.find (\<lambda>r. triple r = triple g) (fst (build_rows matched)) = Some r0"
    using f
  proof (rule find_stronger)
    show "triple r0 = triple g" using t by simp
    show "row_key y = row_key g" if "triple y = triple g" for y
      using that by (rule row_key_triple)
  qed
  with v show ?thesis by blast
qed

subsection \<open>Locations without a name\<close>

lemma keys_assign:
  "set (map fst (assign k v obj))
     = (if k = ''__proto__'' then set (map fst obj) else insert k (set (map fst obj)))"
  by (simp add: assign_def keys_update del: set_map)

lemma keys_levels:
  "set (map fst (snd (foldl level_step acc ls)))
     = set (map fst (snd acc)) \<union> ((\<lambda>l. level_key (node l)) ` set ls - {''__proto__''})"
proof (induction ls arbitrary: acc)
  case Nil
  then show ?case by simp
next
  case (Cons l ls)
  have "set (map fst (snd (level_step acc l)))
      = set (map fst (snd acc)) \<union> ({level_key (node l)} - {''__proto__''})"
    by (simp add: snd_level_step keys_assign del: set_map)
  then show ?case
    using Cons.IH [of "level_step acc l"] by (simp del: set_map) blast
qed

lemma levels_untouched:
  "\<forall>l\<in>set ls. level_key (node l) \<noteq> k
     \<Longrightarrow> map_of (snd (foldl level_step acc ls)) k = map_of (snd acc) k"
proof (induction ls arbitrary: acc)
  case Nil
  then show ?case by simp
next
  case (Cons l ls)
  from Cons.prems have ne: "level_key (node l) \<noteq> k" and rest: "\<forall>l\<in>set ls. level_key (node l) \<noteq> k"
    by simp_all
  have "map_of (snd (level_step acc l)) k = map_of (snd acc) k"
    using ne by (simp add: snd_level_step assign_def update_conv')
  with Cons.IH [OF rest, of "level_step acc l"] show ?case by simp
qed

lemma levels_last_write:
  assumes "level_key (node l) = k" and "k \<noteq> ''__proto__''"
    and "\<forall>l'\<in>set post. level_key (node l') \<noteq> k"
  shows "map_of (snd (foldl level_step acc (pre @ l # post))) k = Some (level_value (node l))"
proof -
  let ?st = "foldl level_step acc pre"
  have "map_of (snd (level_step ?st l)) k = Some (level_value (node l))"
    using assms(1,2) by (simp add: snd_level_step map_of_assign_own)
  moreover have "map_of (snd (foldl level_step (level_step ?st l) post)) k
      = map_of (snd (level_step ?st l)) k"
    using assms(3) by (rule levels_untouched)
  ultimately show ?thesis by simp
qed

lemma level_key_absent:
  "Option.bind (location lvl) loc_name = None \<Longrightarrow> level_key lvl = ''Unknown''"
  by (simp add: level_key_def or_default_None)

text \<open>
  Claim C9: an inventory level whose location name is absent is recorded under the key
  \<open>Unknown\<close>. For a line item of the matched orders with such a level, \<open>Unknown\<close> is
  among the discovered location names, the row of the line item has exactly one entry
  for \<open>Unknown\<close>, and that entry holds the availability of the level (the quantity of
  the first of its quantities that is named \<open>available\<close>, or the string \<open>-\<close> when it
  has none), unless a later level of the same line item is recorded under \<open>Unknown\<close>
  too: the last one wins.
\<close>

theorem C9_unknown_location:
  assumes "i < length (items_of matched)"
    and "levels_of (variant (node (items_of matched ! i))) = pre @ l # post"
    and "Option.bind (location (node l)) loc_name = None"
  shows "level_key (node l) = ''Unknown'' \<and>
         ''Unknown'' \<in> set (snd (build_rows matched)) \<and>
         length (filter (\<lambda>kv. fst kv = ''Unknown'') (locations (fst (build_rows matched) ! i))) = 1 \<and>
         ((\<forall>l'\<in>set post. level_key (node l') \<noteq> ''Unknown'') \<longrightarrow>
            map_of (locations (fst (build_rows matched) ! i)) ''Unknown''
              = Some (case Option.bind (quantities (node l))
                             (List.find (\<lambda>q. q_name q = ''available'')) of
                        None \<Rightarrow> Str ''-''
                      | Some avail \<Rightarrow> Num (q_quantity avail)))"
proof -
  let ?li = "items_of matched ! i"
  have key: "level_key (node l) = ''Unknown''"
    using assms(3) by (rule level_key_absent)
  have li: "?li \<in> set (items_of matched)"
    using assms(1) by simp
  have l: "l \<in> set (levels_of (variant (node ?li)))"
    by (simp add: assms(2))
  have "level_key (node l) \<in> (\<Union>li\<in>set (items_of matched).
          (\<lambda>l. level_key (node l)) ` set (levels_of (variant (node li))))"
    using li l by blast
  then have names: "''Unknown'' \<in> set (snd (build_rows matched))"
    by (simp only: names_build_rows key)
  have loc: "locations (fst (build_rows matched) ! i)
      = snd (foldl level_step ([], []) (pre @ l # post))"
    by (simp add: nth_build_rows [OF assms(1)] row_of_simps locData_of_def assms(2))
  have "''Unknown'' \<in> set (map fst (snd (foldl level_step ([], []) (pre @ l # post))))"
    unfolding keys_levels using key by (simp del: set_map) 
  moreover have "distinct (map fst (snd (foldl level_step ([], []) (pre @ l # post))))"
    using own_keys_ok_levels [of "([], [])" "pre @ l # post"]
    by (simp add: own_keys_ok_def)
  ultimately have one: "length (filter (\<lambda>kv. fst kv = ''Unknown'')
      (locations (fst (build_rows matched) ! i))) = 1"
    unfolding loc by (intro length_filter_key)
  have "map_of (locations (fst (build_rows matched) ! i)) ''Unknown''
      = Some (level_value (node l))"
    if "\<forall>l'\<in>set post. level_key (node l') \<noteq> ''Unknown''"
    unfolding loc using key _ that by (rule levels_last_write) simp
  then have last: "map_of (locations (fst (build_rows matched) ! i)) ''Unknown''
      = Some (case Option.bind (quantities (node l))
                     (List.find (\<lambda>q. q_name q = ''available'')) of
                None \<Rightarrow> Str ''-''
              | Some avail \<Rightarrow> Num (q_quantity avail))"
    if "\<forall>l'\<in>set post. level_key (node l') \<noteq> ''Unknown''"
    using that by (simp only: level_value_def)
  from key names one last show ?thesis by blast
qed

subsection \<open>The sample run\<close>

lemma demo_rows:
  "final_rows demo_platform demo_matched = rows demo_report"
  by code_simp

lemma demo_items: "length (items_of demo_matched) = 6"
  by code_simp



theorem C5_sorted_by_sku_witness:
  "(\<forall>a b. localeCompare demo_platform a b \<le> 0 \<or> localeCompare demo_platform b a \<le> 0) \<and>
   successively (\<lambda>x y. localeCompare demo_platform (sku x) (sku y) \<le> 0)
     (final_rows demo_platform demo_matched) \<and>
   action demo_platform ''2024-01-01T00:00'' ''2024-01-01T23:59'' demo_replies = Some demo_report \<and>
   successively (\<lambda>x y. localeCompare demo_platform (sku x) (sku y) \<le> 0) (rows demo_report) \<and>
   map sku (rows demo_report) = [''ABC123'', ''N/A'', ''N/A'', ''ZED-9'']"
proof -
  have h: "\<forall>a b. localeCompare demo_platform a b \<le> 0 \<or> localeCompare demo_platform b a \<le> 0"
    by (auto simp: demo_platform_def demo_compare_def)
  note t = C5_sorted_by_sku [OF h, of demo_matched "''2024-01-01T00:00''" "''2024-01-01T23:59''"
      demo_replies]
  from t demo_run have s: "successively (\<lambda>x y. localeCompare demo_platform (sku x) (sku y) \<le> 0)
      (rows demo_report)"
    by blast
  have m: "map sku (rows demo_report) = [''ABC123'', ''N/A'', ''N/A'', ''ZED-9'']"
    by (simp add: demo_report_def robot_group_def)
  from h t [THEN conjunct1] demo_run s m show ?thesis by blast
qed

theorem C10_first_row_wins_witness:
  "robot_group \<in> set (final_rows demo_platform demo_matched) \<and>
   (\<exists>r0. List.find (\<lambda>r. triple r = triple robot_group) (fst (build_rows demo_matched)) = Some r0 \<and>
         vendor robot_group = vendor r0 \<and> productType robot_group = productType r0) \<and>
   map vendor (rows_of_triple (triple robot_group) (fst (build_rows demo_matched)))
     = [''Acme'', ''Bolt''] \<and>
   vendor robot_group = ''Acme''"
proof -
  have h: "robot_group \<in> set (final_rows demo_platform demo_matched)"
    by (simp add: demo_rows demo_report_def)
  have v: "map vendor (rows_of_triple (triple robot_group) (fst (build_rows demo_matched)))
     = [''Acme'', ''Bolt'']"
    by code_simp
  have a: "vendor robot_group = ''Acme''"
    by (simp add: robot_group_def)
  from h C10_first_row_wins [OF h] v a show ?thesis by blast
qed

theorem C9_unknown_location_witness:
  "2 < length (items_of demo_matched) \<and>
   levels_of (variant (node (items_of demo_matched ! 2)))
     = [mk_level None (Some 4)] @ mixed_level # [mk_level (Some ''Warehouse A'') (Some 7)] \<and>
   Option.bind (location (node mixed_level)) loc_name = None \<and>
   level_key (node (mk_level (Some ''Warehouse A'') (Some 7))) \<noteq> ''Unknown'' \<and>
   level_key (node mixed_level) = ''Unknown'' \<and>
   ''Unknown'' \<in> set (snd (build_rows demo_matched)) \<and>
   length (filter (\<lambda>kv. fst kv = ''Unknown'') (locations (fst (build_rows demo_matched) ! 2))) = 1 \<and>
   map_of (locations (fst (build_rows demo_matched) ! 2)) ''Unknown''
     = Some (case Option.bind (quantities (node mixed_level))
                    (List.find (\<lambda>q. q_name q = ''available'')) of
               None \<Rightarrow> Str ''-''
             | Some avail \<Rightarrow> Num (q_quantity avail)) \<and>
   quantities (node mixed_level)
     = Some [\<lparr> q_name = ''on_hand'', q_quantity = 9 \<rparr>,
             \<lparr> q_name = ''available'', q_quantity = 6 \<rparr>] \<and>
   map_of (locations (fst (build_rows demo_matched) ! 2)) ''Unknown'' = Some (Num 6) \<and>
   level_key (node (mk_level None (Some 4))) = ''Unknown''"
proof -
  have i: "2 < length (items_of demo_matched)"
    by (simp add: demo_items)
  have ls: "levels_of (variant (node (items_of demo_matched ! 2)))
     = [mk_level None (Some 4)] @ mixed_level # [mk_level (Some ''Warehouse A'') (Some 7)]"
    by code_simp
  have n: "Option.bind (location (node mixed_level)) loc_name = None"
    by (simp add: mixed_level_def)
  have w: "level_key (node (mk_level (Some ''Warehouse A'') (Some 7))) \<noteq> ''Unknown''"
    by (simp add: mk_level_def level_key_def or_default_def)
  then have p: "\<forall>l'\<in>set [mk_level (Some ''Warehouse A'') (Some 7)]. level_key (node l') \<noteq> ''Unknown''"
    by simp
  have qs: "quantities (node mixed_level)
     = Some [\<lparr> q_name = ''on_hand'', q_quantity = 9 \<rparr>,
             \<lparr> q_name = ''available'', q_quantity = 6 \<rparr>]"
    by (simp add: mixed_level_def)
  have v: "map_of (locations (fst (build_rows demo_matched) ! 2)) ''Unknown'' = Some (Num 6)"
    by code_simp
  have f: "level_key (node (mk_level None (Some 4))) = ''Unknown''"
    by (simp add: mk_level_def level_key_def or_default_def)
  note t = C9_unknown_location [OF i ls n]
  from t p have "map_of (locations (fst (build_rows demo_matched) ! 2)) ''Unknown''
     = Some (case Option.bind (quantities (node mixed_level))
                    (List.find (\<lambda>q. q_name q = ''available'')) of
               None \<Rightarrow> Str ''-''
             | Some avail \<Rightarrow> Num (q_quantity avail))"
    by blast
  with i ls n w t qs v f show ?thesis by blast
qed

theorem C4_flat_rows_witness:
  "length (fst (build_rows demo_matched)) = length (items_of demo_matched) \<and>
   5 < length (items_of demo_matched) \<and>
   Option.bind (product (node (items_of demo_matched ! 5))) p_title = None \<and>
   Option.bind (variant (node (items_of demo_matched ! 5))) v_title = None \<and>
   Option.bind (variant (node (items_of demo_matched ! 5))) v_sku = None \<and>
   Option.bind (product (node (items_of demo_matched ! 5))) p_vendor = None \<and>
   Option.bind (product (node (items_of demo_matched ! 5))) p_productType = None \<and>
   productTitle (fst (build_rows demo_matched) ! 5) = ''N/A'' \<and>
   productVariantTitle (fst (build_rows demo_matched) ! 5) = ''N/A'' \<and>
   sku (fst (build_rows demo_matched) ! 5) = ''N/A'' \<and>
   vendor (fst (build_rows demo_matched) ! 5) = ''N/A'' \<and>
   productType (fst (build_rows demo_matched) ! 5) = ''N/A'' \<and>
   netItemsSold (fst (build_rows demo_matched) ! 5) = quantity (node (items_of demo_matched ! 5)) \<and>
   1 < length (items_of demo_matched) \<and>
   3 < length (items_of demo_matched) \<and>
   Option.bind (variant (node (items_of demo_matched ! 1))) v_sku = None \<and>
   Option.bind (variant (node (items_of demo_matched ! 1))) v_title = None \<and>
   Option.bind (variant (node (items_of demo_matched ! 3))) v_sku = None \<and>
   Option.bind (variant (node (items_of demo_matched ! 3))) v_title = None \<and>
   productTitle (fst (build_rows demo_matched) ! 1) = productTitle (fst (build_rows demo_matched) ! 3) \<and>
   sku (fst (build_rows demo_matched) ! 1) = ''N/A'' \<and>
   productVariantTitle (fst (build_rows demo_matched) ! 3) = ''N/A'' \<and>
   row_key (fst (build_rows demo_matched) ! 1) = row_key (fst (build_rows demo_matched) ! 3) \<and>
   (\<exists>g. filter (\<lambda>g. row_key g = row_key (fst (build_rows demo_matched) ! 1))
           (final_rows demo_platform demo_matched) = [g] \<and>
        netItemsSold g
          = sum_list (map netItemsSold
              (rows_of_key (row_key (fst (build_rows demo_matched) ! 1))
                 (fst (build_rows demo_matched))))) \<and>
   map netItemsSold (rows_of_key (row_key (fst (build_rows demo_matched) ! 1))
      (fst (build_rows demo_matched))) = [1, 2]"
proof -
  note t = C4_flat_rows [of demo_matched demo_platform]
  have i5: "5 < length (items_of demo_matched)"
    and i1: "1 < length (items_of demo_matched)"
    and i3: "3 < length (items_of demo_matched)"
    by (simp_all add: demo_items)
  have a5: "Option.bind (product (node (items_of demo_matched ! 5))) p_title = None"
    "Option.bind (variant (node (items_of demo_matched ! 5))) v_title = None"
    "Option.bind (variant (node (items_of demo_matched ! 5))) v_sku = None"
    "Option.bind (product (node (items_of demo_matched ! 5))) p_vendor = None"
    "Option.bind (product (node (items_of demo_matched ! 5))) p_productType = None"
    by code_simp+
  have a13: "Option.bind (variant (node (items_of demo_matched ! 1))) v_sku = None"
    "Option.bind (variant (node (items_of demo_matched ! 1))) v_title = None"
    "Option.bind (variant (node (items_of demo_matched ! 3))) v_sku = None"
    "Option.bind (variant (node (items_of demo_matched ! 3))) v_title = None"
    by code_simp+
  have pt: "productTitle (fst (build_rows demo_matched) ! 1)
      = productTitle (fst (build_rows demo_matched) ! 3)"
    by code_simp
  have q: "map netItemsSold (rows_of_key (row_key (fst (build_rows demo_matched) ! 1))
      (fst (build_rows demo_matched))) = [1, 2]"
    by code_simp
  note one = t [THEN conjunct2, THEN conjunct1, rule_format, OF i5]
  note two = t [THEN conjunct2, THEN conjunct2, rule_format, OF i1 i3]
  from a13 pt have h: "Option.bind (variant (node (items_of demo_matched ! 1))) v_sku = None \<and>
      Option.bind (variant (node (items_of demo_matched ! 1))) v_title = None \<and>
      Option.bind (variant (node (items_of demo_matched ! 3))) v_sku = None \<and>
      Option.bind (variant (node (items_of demo_matched ! 3))) v_title = None \<and>
      productTitle (fst (build_rows demo_matched) ! 1)
        = productTitle (fst (build_rows demo_matched) ! 3)"
    by blast
  note three = two [OF h]
  from t [THEN conjunct1] i5 a5 one i1 i3 a13 pt three q show ?thesis
    by blast
qed

end
